theory Spec2Isabelle
  imports Main "HOL-Library.Word"
begin

section \<open>Data model (src/main.cpp, lines 30--109)\<close>

text \<open>
  The program keeps its whole state in global variables. The structs become records, the
  globals one record \<open>gstate\<close>. Pointers to engine objects are modelled by the object they
  point to (\<open>None\<close> is the null pointer). The position \<open>pos\<close> of a node in the editor
  and its \<open>opt_storage\<close> are left out: no function below reads or writes them.
\<close>

datatype AVMediaType = AVMEDIA_TYPE_UNKNOWN | AVMEDIA_TYPE_VIDEO | AVMEDIA_TYPE_AUDIO
  | AVMEDIA_TYPE_DATA | AVMEDIA_TYPE_SUBTITLE | AVMEDIA_TYPE_ATTACHMENT

record Edge2Pad =
  node :: nat
  is_output :: int
  pad_index :: nat

record AVFilter =
  name :: string
  inputs :: "AVMediaType list"
  outputs :: "AVMediaType list"
  dynamic_inputs :: bool
  dynamic_outputs :: bool
  support_timeline :: bool
  process_command :: bool

record AVFilterContext =
  ctx_name :: "string option"
  ctx_filter :: "AVFilter option"
  input_pads :: "AVMediaType list"
  output_pads :: "AVMediaType list"
  is_disabled :: bool

record AVFilterGraph =
  filters :: "AVFilterContext list"

text \<open>A frame buffer is either unreferenced (no picture) or holds the picture with a
  presentation timestamp.\<close>

datatype AVFrame = Unref | Picture int

text \<open>The field \<open>speed\<close> is the \<open>double\<close> that the producer computes after a pull from the
  frame rate of the sink and the microseconds the pull took (line 134). The model keeps
  the two operands of that computation in place of its floating-point result. A window
  position is a pair of coordinates given by the UI toolkit; the program only stores it and
  hands it back.\<close>

datatype speed_value = Unmeasured | Measured "int \<times> int" int

type_synonym ImVec2 = "int \<times> int"

record BufferSink =
  sink_id :: nat
  label :: "string option"
  sink_ctx :: "AVFilterContext option"
  time_base :: "int \<times> int"
  frame_rate :: "int \<times> int"
  a_frame :: "AVFrame option"
  b_frame :: "AVFrame option"
  speed :: speed_value
  uploaded_frame :: bool
  fullscreen :: bool
  show_osd :: bool
  have_window_pos :: bool
  window_pos :: ImVec2
  texture :: "nat option"

record FilterNode =
  node_id :: nat
  edge :: nat
  colapsed :: bool
  node_filter :: "AVFilter option"
  filter_name :: "string option"
  filter_label :: "string option"
  ctx_options :: "string option"
  filter_options :: "string option"
  probe :: "AVFilterContext option"
  probe_graph :: "AVFilterGraph option"
  node_ctx :: "AVFilterContext option"

text \<open>A \<open>std::thread\<close> object either owns no thread (default constructed, or joined) or
  owns the producer thread of the sink with the given index.\<close>

datatype thread = NotAThread | Worker nat

fun joinable :: "thread \<Rightarrow> bool" where
  "joinable NotAThread = False"
| "joinable (Worker i) = True"

datatype mutex = Mutex

text \<open>The order of the effects of a rebuild on the shared objects is recorded in a trace.\<close>

datatype event = Join nat | ClearThreads | ClearSinks | ClearMutexes | FreeDump
  | GraphFree | GraphAlloc | AllocFilter nat | LinkPads nat | GraphConfig | Spawn nat

record gstate =
  need_filters_reinit :: bool
  show_buffersink_window :: bool
  show_dumpgraph_window :: bool
  framestep :: bool
  paused :: bool
  focus_buffersink_window :: "nat option"
  filter_graph :: "AVFilterGraph option"
  graphdump_text :: "string option"
  buffer_sinks :: "BufferSink list"
  mutexes :: "mutex list"
  video_sink_threads :: "thread list"
  filter_nodes :: "FilterNode list"
  filter_links :: "(int \<times> int) list"
  edge2type :: "(nat \<times> AVMediaType) list"
  edge2pad :: "Edge2Pad list"
  trace :: "event list"

section \<open>The graph engine, as seen by \<open>filters_setup\<close>\<close>

text \<open>
  The engine (libavfilter) is not part of the program. Each of its calls in
  \<open>filters_setup\<close> is made at most once per node or link, so what the engine answers
  is a parameter: a result for every call site and index.
\<close>

record engine =
  graph_alloc_ok :: bool
  alloc_filter_ok :: "nat \<Rightarrow> bool"
  set_pix_fmts :: "nat \<Rightarrow> int"
  serialize_ctx :: "nat \<Rightarrow> int \<times> string option"
  serialize_priv :: "nat \<Rightarrow> int \<times> string option"
  set_ctx_options :: "nat \<Rightarrow> int"
  set_priv_options :: "nat \<Rightarrow> int"
  init_str :: "nat \<Rightarrow> int"
  link_pads :: "nat \<Rightarrow> int"
  graph_config :: int
  auto_inserted :: "AVFilterContext list"
  graph_dump :: "string option"
  sink_time_base :: "nat \<Rightarrow> int \<times> int"
  sink_frame_rate :: "nat \<Rightarrow> int \<times> int"
  gen_texture :: "nat \<Rightarrow> nat"

definition ENOMEM :: int where "ENOMEM = 12"
definition ENOSYS :: int where "ENOSYS = 38"
definition EINVAL :: int where "EINVAL = 22"
definition EAGAIN :: int where "EAGAIN = 11"

definition AVERROR :: "int \<Rightarrow> int" where
  "AVERROR e = - e"

section \<open>\<open>filters_setup\<close> (lines 159--323)\<close>

text \<open>One pass of a loop body either goes on, leaves through \<open>goto error\<close> with a return
  code, or reads a vector or a null pointer out of range (undefined behaviour in C++; the
  state reached at that point is kept). A call of the function either returns a code or has
  met undefined behaviour.\<close>

datatype 'a step = Undefined (st: 'a) | Abort int (st: 'a) | Continue (st: 'a)

datatype 'a outcome = Crash (final: 'a) | Return (code: int) (final: 'a)

fun join_from :: "nat \<Rightarrow> thread list \<Rightarrow> event list" where
  "join_from i [] = []"
| "join_from i (t # ts) = (if joinable t then [Join i] else []) @ join_from (Suc i) ts"

text \<open>The end of \<open>worker_thread\<close> (lines 149--156): the producer frees the label, both
  frame buffers and the texture of its sink. \<open>join\<close> returns when the producer has run
  to its end, so after a join these four fields of the sink of that producer are null; its
  other fields are as the state passed to \<open>filters_setup\<close> holds them. The producer
  \<open>Worker j\<close> is the one started on the sink of index \<open>j\<close>.\<close>

definition worker_exit :: "BufferSink \<Rightarrow> BufferSink" where
  "worker_exit b = b\<lparr>label := None, a_frame := None, b_frame := None, texture := None\<rparr>"

fun join_sinks :: "thread list \<Rightarrow> BufferSink list \<Rightarrow> BufferSink list" where
  "join_sinks [] bs = bs"
| "join_sinks (NotAThread # ts) bs = join_sinks ts bs"
| "join_sinks (Worker j # ts) bs = join_sinks ts (bs[j := worker_exit (bs ! j)])"

definition join_all :: "gstate \<Rightarrow> gstate" where
  "join_all s = s\<lparr>video_sink_threads := map (\<lambda>t. NotAThread) (video_sink_threads s),
                  buffer_sinks := join_sinks (video_sink_threads s) (buffer_sinks s),
                  trace := trace s @ join_from 0 (video_sink_threads s)\<rparr>"

definition new_context :: "AVFilter \<Rightarrow> string option \<Rightarrow> AVFilterContext" where
  "new_context f l = \<lparr>ctx_name = l, ctx_filter = Some f, input_pads = inputs f,
                      output_pads = outputs f, is_disabled = False\<rparr>"

text \<open>\<open>BufferSink new_sink\<close>: the fields the code does not assign before \<open>push_back\<close> are
  uninitialised there; the model gives them null values.\<close>

definition new_sink :: "AVFilterContext \<Rightarrow> BufferSink" where
  "new_sink c = \<lparr>sink_id = 0, label = None, sink_ctx = Some c, time_base = (0, 0),
                 frame_rate = (0, 0), a_frame = None, b_frame = None, speed = Unmeasured,
                 uploaded_frame = False, fullscreen = False, show_osd = False,
                 have_window_pos = False, window_pos = (0, 0), texture = None\<rparr>"

definition setup_node :: "engine \<Rightarrow> nat \<Rightarrow> gstate \<Rightarrow> gstate step" where
  "setup_node eng i s =
    (let nd = filter_nodes s ! i in
     case node_filter nd of
       None \<Rightarrow> Abort (AVERROR ENOSYS) s
     | Some new_filter \<Rightarrow>
        if \<not> alloc_filter_ok eng i then Abort (AVERROR ENOMEM) s
        else
          let filter_ctx = new_context new_filter (filter_label nd);
              s1 = s\<lparr>filter_graph :=
                        map_option (\<lambda>g. g\<lparr>filters := filters g @ [filter_ctx]\<rparr>) (filter_graph s),
                      trace := trace s @ [AllocFilter i]\<rparr>
          in if name new_filter = ''buffersink'' \<and> set_pix_fmts eng i < 0
             then Abort (set_pix_fmts eng i) s1
             else
               let s2 = (if name new_filter = ''buffersink''
                         then s1\<lparr>buffer_sinks := buffer_sinks s1 @ [new_sink filter_ctx]\<rparr>
                         else s1);
                   s3 = s2\<lparr>filter_nodes := (filter_nodes s2)
                              [i := nd\<lparr>node_ctx := Some filter_ctx,
                                       ctx_options := snd (serialize_ctx eng i)\<rparr>]\<rparr>
               in if fst (serialize_ctx eng i) < 0 then Abort (fst (serialize_ctx eng i)) s3
                  else if probe nd = None then Undefined s3
                  else
                    let s4 = s3\<lparr>filter_nodes := (filter_nodes s3)
                               [i := (filter_nodes s3 ! i)
                                       \<lparr>filter_options := snd (serialize_priv eng i)\<rparr>]\<rparr>
                    in if set_ctx_options eng i < 0 then Abort (set_ctx_options eng i) s4
                       else if set_priv_options eng i < 0 then Abort (set_priv_options eng i) s4
                       else if init_str eng i < 0 then Abort (init_str eng i) s4
                       else Continue s4)"

fun setup_nodes :: "engine \<Rightarrow> nat list \<Rightarrow> gstate \<Rightarrow> gstate step" where
  "setup_nodes eng [] s = Continue s"
| "setup_nodes eng (i # is) s =
     (case setup_node eng i s of
        Continue s' \<Rightarrow> setup_nodes eng is s'
      | r \<Rightarrow> r)"

text \<open>A link names two slots of the table \<open>edge2pad\<close> of the last editor frame; reading
  the table out of range is undefined. When a slot names a node index that is not in the
  node vector, the range check of lines 274--279 logs a message and leaves through
  \<open>goto error\<close> with \<open>AVERROR(EINVAL)\<close>. (For its message the log call reads the labels
  \<open>filter_nodes[x].filter_label\<close> and \<open>filter_nodes[y].filter_label\<close>; the message is not
  modelled.)\<close>

definition setup_link :: "engine \<Rightarrow> nat \<Rightarrow> gstate \<Rightarrow> gstate step" where
  "setup_link eng i s =
    (let p = filter_links s ! i in
     if fst p < 0 \<or> nat (fst p) \<ge> length (edge2pad s)
        \<or> snd p < 0 \<or> nat (snd p) \<ge> length (edge2pad s) then Undefined s
     else
       let x = node (edge2pad s ! nat (fst p));
           y = node (edge2pad s ! nat (snd p))
       in if x \<ge> length (filter_nodes s) \<or> y \<ge> length (filter_nodes s)
          then Abort (AVERROR EINVAL) s
          else if link_pads eng i < 0
          then Abort (link_pads eng i) (s\<lparr>trace := trace s @ [LinkPads i]\<rparr>)
          else Continue (s\<lparr>trace := trace s @ [LinkPads i]\<rparr>))"

fun setup_links :: "engine \<Rightarrow> nat list \<Rightarrow> gstate \<Rightarrow> gstate step" where
  "setup_links eng [] s = Continue s"
| "setup_links eng (i # is) s =
     (case setup_link eng i s of
        Continue s' \<Rightarrow> setup_links eng is s'
      | r \<Rightarrow> r)"

definition config_graph :: "engine \<Rightarrow> gstate \<Rightarrow> gstate step" where
  "config_graph eng s =
    (let s1 = s\<lparr>trace := trace s @ [GraphConfig]\<rparr> in
     if graph_config eng < 0 then Abort (graph_config eng) s1
     else Continue (s1\<lparr>filter_graph :=
                          map_option (\<lambda>g. g\<lparr>filters := filters g @ auto_inserted eng\<rparr>)
                            (filter_graph s1),
                        graphdump_text := graph_dump eng,
                        show_buffersink_window := True,
                        show_dumpgraph_window := True\<rparr>))"

fun decimal :: "nat \<Rightarrow> string" where
  "decimal n = (if n < 10 then [char_of (48 + n)]
                else decimal (n div 10) @ [char_of (48 + n mod 10)])"

declare decimal.simps [simp del]

definition start_sink :: "engine \<Rightarrow> nat \<Rightarrow> BufferSink \<Rightarrow> BufferSink" where
  "start_sink eng i b = b\<lparr>sink_id := i,
                          label := Some (''FilterGraph Output '' @ decimal i),
                          a_frame := Some Unref,
                          b_frame := Some Unref,
                          time_base := sink_time_base eng i,
                          frame_rate := sink_frame_rate eng i,
                          texture := Some (gen_texture eng i)\<rparr>"

text \<open>The code after the label \<open>error\<close>: an error code is returned as it is; otherwise one
  mutex and one producer thread are made for every sink.\<close>

definition spawn_workers :: "engine \<Rightarrow> int \<Rightarrow> gstate \<Rightarrow> gstate outcome" where
  "spawn_workers eng ret s =
    (if ret < 0 then Return ret s
     else
       let n = length (buffer_sinks s) in
       Return 0 (s\<lparr>mutexes := replicate n Mutex,
             video_sink_threads := map Worker [0..<n],
             buffer_sinks := map (\<lambda>i. start_sink eng i (buffer_sinks s ! i)) [0..<n],
             trace := trace s @ map Spawn [0..<n]\<rparr>))"

definition build_graph :: "engine \<Rightarrow> gstate \<Rightarrow> gstate step" where
  "build_graph eng s =
    (case setup_nodes eng [0..<length (filter_nodes s)] s of
       Continue s1 \<Rightarrow>
         (case setup_links eng [0..<length (filter_links s1)] s1 of
            Continue s2 \<Rightarrow> config_graph eng s2
          | r \<Rightarrow> r)
     | r \<Rightarrow> r)"

definition filters_setup :: "engine \<Rightarrow> gstate \<Rightarrow> gstate outcome" where
  "filters_setup eng s =
    (if \<not> need_filters_reinit s then Return 0 s
     else
       let s1 = join_all s;
           s2 = s1\<lparr>video_sink_threads := [], trace := trace s1 @ [ClearThreads]\<rparr>;
           s3 = s2\<lparr>need_filters_reinit := False\<rparr>
       in if filter_nodes s3 = [] then Return 0 s3
          else
            let s4 = s3\<lparr>buffer_sinks := [], mutexes := [], graphdump_text := None,
                        trace := trace s3 @ [ClearSinks, ClearMutexes, FreeDump, GraphFree]\<rparr>;
                s5 = s4\<lparr>filter_graph :=
                           (if graph_alloc_ok eng then Some \<lparr>filters = []\<rparr> else None),
                        trace := trace s4 @ [GraphAlloc]\<rparr>
            in if filter_graph s5 = None then Return (AVERROR ENOMEM) s5
               else
                 (case build_graph eng s5 of
                    Undefined s6 \<Rightarrow> Crash s6
                  | Abort ret s6 \<Rightarrow> spawn_workers eng ret s6
                  | Continue s6 \<Rightarrow> spawn_workers eng (graph_config eng) s6))"

text \<open>The nodes for which \<open>filters_setup\<close> makes an Output are those whose filter is
  named \<open>buffersink\<close> (the \<open>strcmp\<close> of line 211).\<close>

definition is_buffersink :: "FilterNode \<Rightarrow> bool" where
  "is_buffersink nd = (case node_filter nd of None \<Rightarrow> False | Some f \<Rightarrow> name f = ''buffersink'')"

definition sinks_among :: "FilterNode list \<Rightarrow> nat list \<Rightarrow> nat" where
  "sinks_among ns js = length (filter (\<lambda>i. is_buffersink (ns ! i)) js)"

text \<open>The sink of the node \<open>i\<close> is pushed (line 226) when the node is a \<open>buffersink\<close>, its
  context has been allocated and the pixel formats have been set. The body of the node loop
  for the node \<open>i\<close> takes none of its \<open>goto error\<close> (lines 196--261) when the node has a
  filter and every call of the engine for it succeeds. \<open>pushed_sinks\<close> counts the sinks pushed
  by the node loop over the indexes \<open>js\<close>, which stops at the first node that fails.\<close>

definition sink_pushed :: "engine \<Rightarrow> nat \<Rightarrow> FilterNode \<Rightarrow> bool" where
  "sink_pushed eng i nd \<longleftrightarrow>
     is_buffersink nd \<and> alloc_filter_ok eng i \<and> 0 \<le> set_pix_fmts eng i"

definition node_passes :: "engine \<Rightarrow> nat \<Rightarrow> FilterNode \<Rightarrow> bool" where
  "node_passes eng i nd \<longleftrightarrow>
     node_filter nd \<noteq> None \<and> alloc_filter_ok eng i \<and>
     (is_buffersink nd \<longrightarrow> 0 \<le> set_pix_fmts eng i) \<and>
     0 \<le> fst (serialize_ctx eng i) \<and> 0 \<le> set_ctx_options eng i \<and>
     0 \<le> set_priv_options eng i \<and> 0 \<le> init_str eng i"

fun pushed_sinks :: "engine \<Rightarrow> FilterNode list \<Rightarrow> nat list \<Rightarrow> nat" where
  "pushed_sinks eng ns [] = 0"
| "pushed_sinks eng ns (i # js) =
     (if sink_pushed eng i (ns ! i) then 1 else 0) +
     (if node_passes eng i (ns ! i) then pushed_sinks eng ns js else 0)"

text \<open>The reads of \<open>filters_setup\<close> are defined when every link names two slots of the
  table \<open>edge2pad\<close> (lines 266--269) and every node has its probe (line 240).\<close>

definition links_in_table :: "gstate \<Rightarrow> bool" where
  "links_in_table s =
     list_all (\<lambda>p. 0 \<le> fst p \<and> nat (fst p) < length (edge2pad s) \<and>
                   0 \<le> snd p \<and> nat (snd p) < length (edge2pad s)) (filter_links s)"

definition nodes_probed :: "gstate \<Rightarrow> bool" where
  "nodes_probed s = list_all (\<lambda>nd. probe nd \<noteq> None) (filter_nodes s)"

text \<open>The events that free the engine instance or empty the sink and mutex vectors.\<close>

fun mutates_shared :: "event \<Rightarrow> bool" where
  "mutates_shared GraphFree = True"
| "mutates_shared ClearSinks = True"
| "mutates_shared ClearMutexes = True"
| "mutates_shared e = False"

section \<open>\<open>worker_thread\<close> (lines 113--157)\<close>

text \<open>
  The producer runs beside the UI thread, so it is modelled by its steps between program
  points. What a step reads from outside the sink is its environment: the value of
  \<open>need_filters_reinit\<close> and of \<open>paused\<close> at that moment, and what the engine answers to
  \<open>av_buffersink_get_frame_flags\<close> (the return code, and the timestamp of the picture
  written on success), and the microseconds \<open>end - start\<close> that the call took. The loops
  have no bound of their own: a run is the steps taken along a finite list of environments.
\<close>

definition AVERROR_EOF :: int where
  "AVERROR_EOF = - 541478725"

record wenv =
  reinit :: bool
  is_paused :: bool
  pull_ret :: int
  pull_pts :: int
  elapsed :: int

datatype wpc = AtOuterTest | AtInnerTest | AtPull | AtExit | Finished

text \<open>Lines 133--134: after every pull, whatever it returned, the speed of the sink is
  written when the clock has advanced.\<close>

definition measure_speed :: "wenv \<Rightarrow> BufferSink \<Rightarrow> BufferSink" where
  "measure_speed e b =
     (if 0 < elapsed e then b\<lparr>speed := Measured (frame_rate b) (elapsed e)\<rparr> else b)"

fun worker_step :: "wenv \<Rightarrow> wpc \<times> BufferSink \<Rightarrow> wpc \<times> BufferSink" where
  "worker_step e (AtOuterTest, b) =
     (if sink_ctx b = None then (AtExit, b)
      else if reinit e then (AtExit, b)
      else (AtInnerTest, b))"
| "worker_step e (AtInnerTest, b) =
     (if \<not> uploaded_frame b
      then (AtPull, b\<lparr>a_frame := map_option (\<lambda>f. Unref) (a_frame b)\<rparr>)
      else (AtOuterTest, b))"
| "worker_step e (AtPull, b) =
     (let b0 = (if 0 \<le> pull_ret e
                then b\<lparr>a_frame := map_option (\<lambda>f. Picture (pull_pts e)) (a_frame b)\<rparr>
                else b);
          b1 = measure_speed e b0
      in if pull_ret e < 0 \<and> pull_ret e \<noteq> AVERROR EAGAIN
         then (AtOuterTest, b1)
         else (AtInnerTest, b1\<lparr>uploaded_frame := True\<rparr>))"
| "worker_step e (AtExit, b) = (Finished, worker_exit b)"
| "worker_step e (Finished, b) = (Finished, b)"

fun worker_run :: "wenv list \<Rightarrow> wpc \<times> BufferSink \<Rightarrow> wpc \<times> BufferSink" where
  "worker_run [] c = c"
| "worker_run (e # es) c = worker_run es (worker_step e c)"

text \<open>The number of calls of \<open>av_buffersink_get_frame_flags\<close> in a run.\<close>

fun pulls :: "wenv list \<Rightarrow> wpc \<times> BufferSink \<Rightarrow> nat" where
  "pulls [] c = 0"
| "pulls (e # es) c = (if fst c = AtPull then 1 else 0) + pulls es (worker_step e c)"

section \<open>The consumer in the main loop (lines 1604--1623) and \<open>draw_frame\<close> (lines 377--476)\<close>

text \<open>What the UI toolkit reports to \<open>draw_frame\<close> for the window of one sink in one UI
  frame.\<close>

record ui_keys =
  begin_visible :: bool
  close_clicked :: bool
  window_focused :: bool
  key_F_released :: bool
  key_Space_released :: bool
  key_Period_pressed :: bool
  key_Q_down :: bool
  key_Shift :: bool
  key_O_released :: bool
  key_digit_down :: bool
  key_Ctrl :: bool
  window_at :: ImVec2

text \<open>\<open>draw_frame\<close> returns at once when the sink windows are closed
  (\<open>show_buffersink_window\<close> is false) or the frame pointer is null. Otherwise it loads the
  frame it was given into the texture of the sink (\<open>load_frame\<close>), and when \<open>ImGui::Begin\<close>
  reports the window of the sink as visible it draws the texture there (\<open>ImGui::Image\<close> or
  \<open>AddImage\<close>). The result names the frame loaded and the frame shown in the window, if
  any. The keys change \<open>paused\<close>, \<open>framestep\<close> and \<open>show_buffersink_window\<close>.\<close>

record frame_drawn =
  loaded :: "AVFrame option"
  shown :: "AVFrame option"

definition handle_keys :: "ui_keys \<Rightarrow> nat \<Rightarrow> gstate \<Rightarrow> gstate" where
  "handle_keys k i s =
    (let b = buffer_sinks s ! i;
         b1 = (if key_F_released k then b\<lparr>fullscreen := \<not> fullscreen b\<rparr> else b);
         p1 = (if key_Space_released k then \<not> paused s else paused s);
         fs = key_Period_pressed k;
         p2 = (if fs then True else p1);
         w = (if key_Q_down k \<and> key_Shift k then False else show_buffersink_window s);
         b2 = (if key_O_released k then b1\<lparr>show_osd := \<not> show_osd b1\<rparr> else b1)
     in s\<lparr>buffer_sinks := (buffer_sinks s)[i := b2], paused := p2, framestep := fs,
           show_buffersink_window := w\<rparr>)"

definition draw_frame :: "ui_keys \<Rightarrow> AVFrame option \<Rightarrow> nat \<Rightarrow> gstate \<Rightarrow> gstate \<times> frame_drawn" where
  "draw_frame k new_frame i s =
    (if \<not> show_buffersink_window s \<or> new_frame = None
     then (s, \<lparr>loaded = None, shown = None\<rparr>)
     else
       let b = buffer_sinks s ! i;
           b1 = (if fullscreen b then b\<lparr>have_window_pos := True\<rparr>
                 else if have_window_pos b then b\<lparr>have_window_pos := False\<rparr> else b);
           s1 = s\<lparr>buffer_sinks := (buffer_sinks s)[i := b1],
                   focus_buffersink_window :=
                     (if focus_buffersink_window s = Some (sink_id b) then None
                      else focus_buffersink_window s)\<rparr>;
           s2 = (if close_clicked k then s1\<lparr>show_buffersink_window := False\<rparr> else s1)
       in if \<not> begin_visible k then (s2, \<lparr>loaded = new_frame, shown = None\<rparr>)
          else
            let sw = (if fullscreen b1 then s2
                      else s2\<lparr>buffer_sinks :=
                             (buffer_sinks s2)[i := b1\<lparr>window_pos := window_at k\<rparr>]\<rparr>);
                s3 = (if window_focused k then handle_keys k i sw else sw);
                s4 = (if key_digit_down k \<and> key_Ctrl k
                      then s3\<lparr>focus_buffersink_window := Some (sink_id b)\<rparr> else s3)
            in (s4, \<lparr>loaded = new_frame, shown = new_frame\<rparr>))"

text \<open>
  The body of the consumer loop for the sink \<open>i\<close>. Between its two critical sections the
  mutex is free and the producer of the sink may run: \<open>pr\<close> gives the program point of
  the producer and the environments of the steps it takes there. The result is the new
  state, the frame picked for display in the first critical section and what \<open>draw_frame\<close>
  has loaded and shown.
\<close>

definition pick_frame :: "BufferSink \<Rightarrow> AVFrame option" where
  "pick_frame b = (if uploaded_frame b = False then b_frame b else a_frame b)"

definition swap_frames :: "bool \<Rightarrow> bool \<Rightarrow> BufferSink \<Rightarrow> BufferSink" where
  "swap_frames p fs b =
     (if uploaded_frame b = True \<and> (\<not> p \<or> fs)
      then b\<lparr>b_frame := a_frame b, a_frame := b_frame b, uploaded_frame := False\<rparr>
      else b)"

definition producer_runs :: "wpc \<times> wenv list \<Rightarrow> nat \<Rightarrow> gstate \<Rightarrow> gstate" where
  "producer_runs pr i s =
     s\<lparr>buffer_sinks := (buffer_sinks s)
          [i := snd (worker_run (snd pr) (fst pr, buffer_sinks s ! i))]\<rparr>"

definition swap_section :: "nat \<Rightarrow> gstate \<Rightarrow> gstate" where
  "swap_section i s =
     s\<lparr>buffer_sinks := (buffer_sinks s)
          [i := swap_frames (paused s) (framestep s) (buffer_sinks s ! i)]\<rparr>"

definition render_sink ::
  "ui_keys \<Rightarrow> wpc \<times> wenv list \<Rightarrow> nat \<Rightarrow> gstate \<Rightarrow> gstate \<times> AVFrame option \<times> frame_drawn" where
  "render_sink k pr i s =
    (let render_frame = pick_frame (buffer_sinks s ! i);
         (s1, d) = draw_frame k render_frame i s;
         s2 = producer_runs pr i s1
     in (swap_section i s2, render_frame, d))"

fun render_sinks ::
  "(nat \<Rightarrow> ui_keys) \<Rightarrow> (nat \<Rightarrow> wpc \<times> wenv list) \<Rightarrow> nat list \<Rightarrow> gstate
     \<Rightarrow> gstate \<times> (AVFrame option \<times> frame_drawn) list" where
  "render_sinks ks prs [] s = (s, [])"
| "render_sinks ks prs (i # is) s =
     (let (s1, fr) = render_sink (ks i) (prs i) i s;
          (s2, frs) = render_sinks ks prs is s1
      in (s2, fr # frs))"

definition consume_frames ::
  "(nat \<Rightarrow> ui_keys) \<Rightarrow> (nat \<Rightarrow> wpc \<times> wenv list) \<Rightarrow> gstate
     \<Rightarrow> gstate \<times> (AVFrame option \<times> frame_drawn) list" where
  "consume_frames ks prs s =
     (if length (mutexes s) = length (buffer_sinks s)
      then render_sinks ks prs [0..<length (buffer_sinks s)] s
      else (s, []))"

section \<open>The graph editor: \<open>draw_node_options\<close> (lines 635--689) and the events of
  \<open>show_filtergraph_editor\<close> (lines 1071--1201)\<close>

definition any_joinable :: "gstate \<Rightarrow> bool" where
  "any_joinable s = list_ex joinable (video_sink_threads s)"

text \<open>An index of type \<open>int\<close> into a vector; outside the range the read or the
  \<open>erase\<close> is undefined, and the functions below return \<open>None\<close> there.\<close>

definition in_range :: "int \<Rightarrow> 'a list \<Rightarrow> bool" where
  "in_range i xs = (0 \<le> i \<and> nat i < length xs)"

definition erase_at :: "nat \<Rightarrow> 'a list \<Rightarrow> 'a list" where
  "erase_at i xs = take i xs @ drop (Suc i) xs"

text \<open>\<open>avfilter_free\<close> takes the context out of the graph that owns it.\<close>

definition avfilter_free :: "AVFilterContext option \<Rightarrow> gstate \<Rightarrow> gstate" where
  "avfilter_free c s =
     (case c of
        None \<Rightarrow> s
      | Some x \<Rightarrow> s\<lparr>filter_graph :=
                       map_option (\<lambda>g. g\<lparr>filters := remove1 x (filters g)\<rparr>) (filter_graph s)\<rparr>)"

text \<open>The slot tables of one editor frame (lines 1071--1129): one slot for the node, then
  one for each input pad and each output pad of its live context or, without one, of its
  probe; a node without probe has no pad slots.\<close>

definition node_slots :: "nat \<Rightarrow> nat \<Rightarrow> FilterNode \<Rightarrow> ((nat \<times> AVMediaType) \<times> Edge2Pad) list" where
  "node_slots e i nd =
     ((e, AVMEDIA_TYPE_UNKNOWN), \<lparr>node = i, is_output = 0, pad_index = 0\<rparr>) #
     (case (if node_ctx nd \<noteq> None then node_ctx nd else probe nd) of
        None \<Rightarrow> []
      | Some c \<Rightarrow>
          map (\<lambda>j. ((e + 1 + j, input_pads c ! j), \<lparr>node = i, is_output = 0, pad_index = j\<rparr>))
            [0..<length (input_pads c)] @
          map (\<lambda>j. ((e + 1 + length (input_pads c) + j, output_pads c ! j),
                     \<lparr>node = i, is_output = 1, pad_index = j\<rparr>))
            [0..<length (output_pads c)])"

fun slots_from :: "nat \<Rightarrow> nat \<Rightarrow> FilterNode list \<Rightarrow> ((nat \<times> AVMediaType) \<times> Edge2Pad) list" where
  "slots_from e i [] = []"
| "slots_from e i (nd # nds) =
     node_slots e i nd @ slots_from (e + length (node_slots e i nd)) (Suc i) nds"

definition build_tables :: "gstate \<Rightarrow> gstate" where
  "build_tables s = s\<lparr>edge2type := map fst (slots_from 0 0 (filter_nodes s)),
                       edge2pad := map snd (slots_from 0 0 (filter_nodes s))\<rparr>"

text \<open>What the UI toolkit reports for the node \<open>i\<close> while it is drawn, and what the engine
  answers to the two allocations of the probe.\<close>

record node_ui =
  probe_graph_alloc_ok :: bool
  probe_alloc_ok :: bool
  options_pressed :: bool
  close_pressed :: bool
  remove_pressed :: bool

definition set_node :: "nat \<Rightarrow> FilterNode \<Rightarrow> gstate \<Rightarrow> gstate" where
  "set_node i nd s = s\<lparr>filter_nodes := (filter_nodes s)[i := nd]\<rparr>"

text \<open>Lines 645--655: the probe graph and the probe of a node are allocated when the node
  is drawn for the first time.\<close>

definition probe_node :: "node_ui \<Rightarrow> FilterNode \<Rightarrow> FilterNode" where
  "probe_node u nd =
    (let nd1 = (if probe_graph nd = None
                then nd\<lparr>probe_graph :=
                          (if probe_graph_alloc_ok u then Some \<lparr>filters = []\<rparr> else None)\<rparr>
                else nd)
     in case probe_graph nd1 of
          None \<Rightarrow> nd1
        | Some g \<Rightarrow>
            (if probe nd1 = None
             then (case node_filter nd1 of
                     Some f \<Rightarrow>
                       if probe_alloc_ok u
                       then nd1\<lparr>probe := Some (new_context f (Some ''probe'')),
                                probe_graph := Some (g\<lparr>filters := filters g @
                                   [new_context f (Some ''probe'')]\<rparr>)\<rparr>
                       else nd1
                   | None \<Rightarrow> nd1)
             else nd1))"

text \<open>The Remove button (lines 675--687): the handles of the node are released, then the
  element at the index \<open>node->id\<close> is erased from \<open>filter_nodes\<close>.\<close>

definition remove_node :: "nat \<Rightarrow> FilterNode \<Rightarrow> gstate \<Rightarrow> gstate option" where
  "remove_node i nd s =
    (let nd3 = nd\<lparr>filter_name := None, filter_label := None,
                  filter_options := None, ctx_options := None,
                  probe_graph := None, probe := None, node_ctx := None,
                  colapsed := False\<rparr>;
         s1 = set_node i nd3 (avfilter_free (node_ctx nd) s)
     in if node_id nd3 < length (filter_nodes s1)
        then Some (s1\<lparr>filter_nodes := erase_at (node_id nd3) (filter_nodes s1)\<rparr>)
        else None)"

text \<open>\<open>draw_node_options\<close> up to the list of options. \<open>node\<close> points to the element \<open>i\<close> of
  \<open>filter_nodes\<close>.\<close>

definition draw_node_options :: "node_ui \<Rightarrow> nat \<Rightarrow> gstate \<Rightarrow> gstate option" where
  "draw_node_options u i s =
    (let nd2 = probe_node u (filter_nodes s ! i)
     in if probe_graph nd2 = None \<or> probe nd2 = None then Some (set_node i nd2 s)
        else if \<not> colapsed nd2 \<and> \<not> options_pressed u then Some (set_node i nd2 s)
        else if close_pressed u then Some (set_node i (nd2\<lparr>colapsed := False\<rparr>) s)
        else if any_joinable s then Some (set_node i (nd2\<lparr>colapsed := True\<rparr>) s)
        else if remove_pressed u then remove_node i (nd2\<lparr>colapsed := True\<rparr>) s
        else Some (set_node i (nd2\<lparr>colapsed := True\<rparr>) s))"

text \<open>What the node editor reports after \<open>EndNodeEditor\<close> in one UI frame.\<close>

record editor_events =
  link_created :: "(int \<times> int) option"
  link_destroyed :: "int option"
  selected_links :: "int list"
  selected_nodes :: "int list"
  key_X_released :: bool

definition create_link :: "int \<times> int \<Rightarrow> gstate \<Rightarrow> gstate option" where
  "create_link p s =
     (if in_range (fst p) (edge2type s) \<and> in_range (snd p) (edge2type s)
      then (if snd (edge2type s ! nat (fst p)) = snd (edge2type s ! nat (snd p))
            then Some (s\<lparr>filter_links := filter_links s @ [p]\<rparr>)
            else Some s)
      else None)"

definition destroy_link :: "int \<Rightarrow> gstate \<Rightarrow> gstate option" where
  "destroy_link link_id s =
     (if in_range link_id (filter_links s)
      then Some (s\<lparr>filter_links := erase_at (nat link_id) (filter_links s)\<rparr>)
      else None)"

fun delete_links :: "int list \<Rightarrow> (int \<times> int) list \<Rightarrow> (int \<times> int) list option" where
  "delete_links [] ls = Some ls"
| "delete_links (edge_id # ids) ls =
     (if ls = [] then Some ls
      else if in_range edge_id ls then delete_links ids (erase_at (nat edge_id) ls)
      else None)"

definition free_node :: "FilterNode \<Rightarrow> FilterNode" where
  "free_node nd = nd\<lparr>node_filter := None, filter_name := None, filter_label := None,
                     filter_options := None, ctx_options := None,
                     probe_graph := None, probe := None\<rparr>"

fun delete_nodes :: "int list \<Rightarrow> gstate \<Rightarrow> gstate option" where
  "delete_nodes [] s = Some s"
| "delete_nodes (slot # ids) s =
     (if in_range slot (edge2pad s)
      then (let n = node (edge2pad s ! nat slot) in
            if n < length (filter_nodes s)
            then delete_nodes ids
                   (set_node n (free_node (filter_nodes s ! n))
                      (avfilter_free (node_ctx (filter_nodes s ! n)) s))
            else None)
      else None)"

definition sweep_nodes :: "gstate \<Rightarrow> gstate" where
  "sweep_nodes s = s\<lparr>filter_nodes := filter (\<lambda>nd. node_filter nd \<noteq> None) (filter_nodes s)\<rparr>"

text \<open>Lines 1139--1201: nothing is handled while a producer thread is joinable.\<close>

definition editor_tail :: "editor_events \<Rightarrow> gstate \<Rightarrow> gstate option" where
  "editor_tail ev s =
    (if any_joinable s then Some s
     else
       case (case link_created ev of None \<Rightarrow> Some s | Some p \<Rightarrow> create_link p s) of
         None \<Rightarrow> None
       | Some s1 \<Rightarrow>
          (case (case link_destroyed ev of None \<Rightarrow> Some s1 | Some l \<Rightarrow> destroy_link l s1) of
             None \<Rightarrow> None
           | Some s2 \<Rightarrow>
              (case (if selected_links ev \<noteq> [] \<and> key_X_released ev
                     then delete_links (selected_links ev) (filter_links s2)
                     else Some (filter_links s2)) of
                 None \<Rightarrow> None
               | Some ls \<Rightarrow>
                  (case (if selected_nodes ev \<noteq> [] \<and> key_X_released ev
                         then delete_nodes (selected_nodes ev) (s2\<lparr>filter_links := ls\<rparr>)
                         else Some (s2\<lparr>filter_links := ls\<rparr>)) of
                     None \<Rightarrow> None
                   | Some s4 \<Rightarrow> Some (sweep_nodes s4)))))"

text \<open>Two nodes have the same handles when they differ at most in the \<open>colapsed\<close> flag
  and, for a node not yet probed, in the probe allocated when it is drawn.\<close>

definition same_handles :: "FilterNode \<Rightarrow> FilterNode \<Rightarrow> bool" where
  "same_handles nd' nd \<longleftrightarrow>
     node_ctx nd' = node_ctx nd \<and> node_filter nd' = node_filter nd \<and>
     node_id nd' = node_id nd \<and> filter_name nd' = filter_name nd \<and>
     filter_label nd' = filter_label nd \<and> ctx_options nd' = ctx_options nd \<and>
     filter_options nd' = filter_options nd \<and>
     (probe nd \<noteq> None \<and> probe_graph nd \<noteq> None \<longrightarrow>
        probe nd' = probe nd \<and> probe_graph nd' = probe_graph nd)"

text \<open>A link resolves to the node \<open>n\<close> in a slot table when one of its two slots is a slot
  of \<open>n\<close> there (the resolution of lines 266--267). The nodes named by a selection are the
  nodes of the selected slots.\<close>

definition link_resolves_to :: "Edge2Pad list \<Rightarrow> nat \<Rightarrow> int \<times> int \<Rightarrow> bool" where
  "link_resolves_to tbl n p \<longleftrightarrow>
     (in_range (fst p) tbl \<and> node (tbl ! nat (fst p)) = n) \<or>
     (in_range (snd p) tbl \<and> node (tbl ! nat (snd p)) = n)"

definition selected_indexes :: "gstate \<Rightarrow> int list \<Rightarrow> nat set" where
  "selected_indexes s ids = set (map (\<lambda>slot. node (edge2pad s ! nat slot)) ids)"

section \<open>The timeline toggle of \<open>show_commands\<close> (lines 1206--1252, 1476--1498)\<close>

text \<open>
  The static variables of \<open>show_commands\<close> are its own state. The tree of runtime options
  (lines 1253--1474) is left out: it sends commands named after options and neither reads
  nor writes \<open>toggle_filter\<close>. A command sent to the engine is recorded by its target, its
  name and its argument.
\<close>

record cmd_state =
  selected_filter :: "nat option"
  toggle_filter :: "nat option"
  is_opened :: bool

record cmd_ui =
  window_begin :: bool
  listbox_begin :: bool
  pass_filter :: "nat \<Rightarrow> bool"
  selectable_pressed :: "nat \<Rightarrow> bool"
  item_clicked :: "nat \<Rightarrow> bool"
  timeline_open :: "nat \<Rightarrow> bool"
  toggle_pressed :: "nat \<Rightarrow> bool"

record command =
  cmd_target :: "string option"
  cmd_name :: string
  cmd_arg :: string

text \<open>The label of the toggle button (line 1478) names the state the user asks for.\<close>

definition toggle_label :: "AVFilterContext \<Rightarrow> string" where
  "toggle_label c = (if is_disabled c then ''Enable'' else ''Disable'')"

definition desired_enabled :: "AVFilterContext \<Rightarrow> bool" where
  "desired_enabled c = (toggle_label c = ''Enable'')"

definition bool_arg :: "bool \<Rightarrow> string" where
  "bool_arg x = (if x then ''1'' else ''0'')"

definition command_node :: "cmd_ui \<Rightarrow> gstate \<Rightarrow> nat \<Rightarrow> cmd_state \<Rightarrow> cmd_state" where
  "command_node u s n c =
    (case node_ctx (filter_nodes s ! n) of
       None \<Rightarrow> c
     | Some ctx \<Rightarrow>
        (case ctx_filter ctx of
           None \<Rightarrow> c
         | Some f \<Rightarrow>
            if \<not> pass_filter u n then c
            else
              let c1 = (if selectable_pressed u n then c\<lparr>selected_filter := Some n\<rparr> else c);
                  c2 = (if item_clicked u n
                        then c1\<lparr>selected_filter := Some n, is_opened := True\<rparr> else c1)
              in if is_opened c2 \<and> selected_filter c2 = Some n
                    \<and> support_timeline f \<and> timeline_open u n \<and> toggle_pressed u n
                 then c2\<lparr>toggle_filter := Some n\<rparr>
                 else c2))"

fun command_nodes :: "cmd_ui \<Rightarrow> gstate \<Rightarrow> nat list \<Rightarrow> cmd_state \<Rightarrow> cmd_state" where
  "command_nodes u s [] c = c"
| "command_nodes u s (n # ns) c = command_nodes u s ns (command_node u s n c)"

text \<open>Lines 1491--1497. The command goes to the filter of the graph at the index
  \<open>toggle_filter\<close>; reading the filter array out of range is undefined (\<open>None\<close>).\<close>

definition send_toggle :: "gstate \<Rightarrow> cmd_state \<Rightarrow> (cmd_state \<times> command list) option" where
  "send_toggle s c =
    (case toggle_filter c of
       None \<Rightarrow> Some (c, [])
     | Some t \<Rightarrow>
        (case filter_graph s of
           None \<Rightarrow> None
         | Some g \<Rightarrow>
            if t < length (filters g)
            then let filter_ctx = filters g ! t;
                     flag = \<not> is_disabled filter_ctx
                 in Some (c\<lparr>toggle_filter := None\<rparr>,
                          [\<lparr>cmd_target = ctx_name filter_ctx, cmd_name = ''enable'',
                            cmd_arg = (if flag then ''0'' else ''1'')\<rparr>])
            else None))"

definition show_commands :: "cmd_ui \<Rightarrow> gstate \<Rightarrow> cmd_state \<Rightarrow> (cmd_state \<times> command list) option" where
  "show_commands u s c =
    (if filter_graph s = None \<or> length (buffer_sinks s) \<noteq> length (mutexes s)
        \<or> buffer_sinks s = [] then Some (c, [])
     else if \<not> window_begin u then Some (c, [])
     else send_toggle s
            (if listbox_begin u
             then command_nodes u s [0..<length (filter_nodes s)] c
             else c))"

text \<open>The contexts of the first \<open>k\<close> nodes are the first \<open>k\<close> filters of the graph, in the
  order of the nodes; \<open>filled\<close> says in addition that the graph has no other filter.\<close>

definition aligned :: "nat \<Rightarrow> gstate \<Rightarrow> bool" where
  "aligned k s \<longleftrightarrow>
     (\<exists>g. filter_graph s = Some g \<and> k \<le> length (filters g) \<and>
          (\<forall>n<k. node_ctx (filter_nodes s ! n) = Some (filters g ! n)))"

definition filled :: "nat \<Rightarrow> gstate \<Rightarrow> bool" where
  "filled k s \<longleftrightarrow> aligned k s \<and> (\<exists>g. filter_graph s = Some g \<and> length (filters g) = k)"

section \<open>The option editor of \<open>draw_node_options\<close> (lines 694--924)\<close>

text \<open>
  The editor reads and writes the options of the probe through the option API of the
  engine (libavutil), which is not part of the program: its functions are parameters, each
  returning its return code with its result. The C types \<open>double\<close> and \<open>float\<close> are the
  type parameters \<open>'d\<close> and \<open>'f\<close>, with the two conversions between them; \<open>int\<close> and
  \<open>int64_t\<close> are 32-bit and 64-bit words. The declared bounds of an option only set the
  range of its widget and are left out.
\<close>

datatype AVOptionType = AV_OPT_TYPE_FLAGS | AV_OPT_TYPE_INT | AV_OPT_TYPE_INT64
  | AV_OPT_TYPE_DOUBLE | AV_OPT_TYPE_FLOAT | AV_OPT_TYPE_STRING | AV_OPT_TYPE_RATIONAL
  | AV_OPT_TYPE_BINARY | AV_OPT_TYPE_DICT | AV_OPT_TYPE_UINT64 | AV_OPT_TYPE_CONST
  | AV_OPT_TYPE_IMAGE_SIZE | AV_OPT_TYPE_PIXEL_FMT | AV_OPT_TYPE_SAMPLE_FMT
  | AV_OPT_TYPE_VIDEO_RATE | AV_OPT_TYPE_DURATION | AV_OPT_TYPE_COLOR | AV_OPT_TYPE_BOOL
  | AV_OPT_TYPE_CHLAYOUT

record AVOption =
  opt_name :: string
  offset :: int
  opt_type :: AVOptionType

record ('o, 'd, 'f) avopt =
  av_opt_get_int :: "'o \<Rightarrow> string \<Rightarrow> int \<times> 64 word"
  av_opt_set_int :: "'o \<Rightarrow> string \<Rightarrow> 64 word \<Rightarrow> int \<times> 'o"
  av_opt_get_double :: "'o \<Rightarrow> string \<Rightarrow> int \<times> 'd"
  av_opt_set_double :: "'o \<Rightarrow> string \<Rightarrow> 'd \<Rightarrow> int \<times> 'o"
  av_opt_get :: "'o \<Rightarrow> string \<Rightarrow> int \<times> string option"
  av_opt_set :: "'o \<Rightarrow> string \<Rightarrow> string \<Rightarrow> int \<times> 'o"
  av_opt_get_q :: "'o \<Rightarrow> string \<Rightarrow> int \<times> (32 word \<times> 32 word)"
  av_opt_set_q :: "'o \<Rightarrow> string \<Rightarrow> 32 word \<times> 32 word \<Rightarrow> int \<times> 'o"
  to_float :: "'d \<Rightarrow> 'f"
  to_double :: "'f \<Rightarrow> 'd"

text \<open>The value a widget shows, and the value it reports when the user has changed it.\<close>

datatype ('d, 'f) wvalue = VInt "32 word" | VInt64 "64 word" | VDouble 'd | VFloat 'f
  | VString string | VInt2 "32 word" "32 word"

text \<open>Drawing one option gives the object after the write (if any) and the value shown
  (\<open>None\<close> when the option cannot be read and no widget is drawn). Copying a string of
  1024 bytes or more into \<open>new_str\<close> overflows the buffer. The kinds whose code needs
  floating-point arithmetic or text scanning (duration, image size, video rate, color)
  are not modelled.\<close>

datatype ('o, 'd, 'f) drawn = NotModelled | Overflow | Drawn 'o "('d, 'f) wvalue option"

definition draw_int ::
  "('o, 'd, 'f) avopt \<Rightarrow> string \<Rightarrow> ('d, 'f) wvalue option \<Rightarrow> 'o \<Rightarrow> ('o, 'd, 'f) drawn" where
  "draw_int api n w obj =
    (if fst (av_opt_get_int api obj n) \<noteq> 0 then Drawn obj None
     else
       let ivalue = (ucast (snd (av_opt_get_int api obj n)) :: 32 word) in
       case w of
         Some (VInt v) \<Rightarrow> Drawn (snd (av_opt_set_int api obj n (scast v))) (Some (VInt ivalue))
       | _ \<Rightarrow> Drawn obj (Some (VInt ivalue)))"

definition draw_int64 ::
  "('o, 'd, 'f) avopt \<Rightarrow> string \<Rightarrow> ('d, 'f) wvalue option \<Rightarrow> 'o \<Rightarrow> ('o, 'd, 'f) drawn" where
  "draw_int64 api n w obj =
    (if fst (av_opt_get_int api obj n) \<noteq> 0 then Drawn obj None
     else
       let val = snd (av_opt_get_int api obj n) in
       case w of
         Some (VInt64 v) \<Rightarrow> Drawn (snd (av_opt_set_int api obj n v)) (Some (VInt64 val))
       | _ \<Rightarrow> Drawn obj (Some (VInt64 val)))"

text \<open>Lines 713--727: the widget edits \<open>value\<close>, and \<open>value = uvalue\<close> then puts the value
  read before the edit back, so the value written is the old one.\<close>

definition draw_uint64 ::
  "('o, 'd, 'f) avopt \<Rightarrow> string \<Rightarrow> ('d, 'f) wvalue option \<Rightarrow> 'o \<Rightarrow> ('o, 'd, 'f) drawn" where
  "draw_uint64 api n w obj =
    (if fst (av_opt_get_int api obj n) \<noteq> 0 then Drawn obj None
     else
       let uvalue = snd (av_opt_get_int api obj n) in
       case w of
         Some (VInt64 v) \<Rightarrow> Drawn (snd (av_opt_set_int api obj n uvalue)) (Some (VInt64 uvalue))
       | _ \<Rightarrow> Drawn obj (Some (VInt64 uvalue)))"

definition draw_double ::
  "('o, 'd, 'f) avopt \<Rightarrow> string \<Rightarrow> ('d, 'f) wvalue option \<Rightarrow> 'o \<Rightarrow> ('o, 'd, 'f) drawn" where
  "draw_double api n w obj =
    (if fst (av_opt_get_double api obj n) \<noteq> 0 then Drawn obj None
     else
       let val = snd (av_opt_get_double api obj n) in
       case w of
         Some (VDouble v) \<Rightarrow> Drawn (snd (av_opt_set_double api obj n v)) (Some (VDouble val))
       | _ \<Rightarrow> Drawn obj (Some (VDouble val)))"

definition draw_float ::
  "('o, 'd, 'f) avopt \<Rightarrow> string \<Rightarrow> ('d, 'f) wvalue option \<Rightarrow> 'o \<Rightarrow> ('o, 'd, 'f) drawn" where
  "draw_float api n w obj =
    (if fst (av_opt_get_double api obj n) \<noteq> 0 then Drawn obj None
     else
       let fvalue = to_float api (snd (av_opt_get_double api obj n)) in
       case w of
         Some (VFloat v) \<Rightarrow>
           Drawn (snd (av_opt_set_double api obj n (to_double api v))) (Some (VFloat fvalue))
       | _ \<Rightarrow> Drawn obj (Some (VFloat fvalue)))"

definition draw_string ::
  "('o, 'd, 'f) avopt \<Rightarrow> string \<Rightarrow> ('d, 'f) wvalue option \<Rightarrow> 'o \<Rightarrow> ('o, 'd, 'f) drawn" where
  "draw_string api n w obj =
    (if fst (av_opt_get api obj n) \<noteq> 0 then Drawn obj None
     else
       let new_str = (case snd (av_opt_get api obj n) of None \<Rightarrow> [] | Some str \<Rightarrow> str) in
       if 1024 \<le> length new_str then Overflow
       else
         case w of
           Some (VString v) \<Rightarrow>
             Drawn (snd (av_opt_set api obj n (take 1023 v))) (Some (VString new_str))
         | _ \<Rightarrow> Drawn obj (Some (VString new_str)))"

definition draw_rational ::
  "('o, 'd, 'f) avopt \<Rightarrow> string \<Rightarrow> ('d, 'f) wvalue option \<Rightarrow> 'o \<Rightarrow> ('o, 'd, 'f) drawn" where
  "draw_rational api n w obj =
    (let rate = (if fst (av_opt_get_q api obj n) < 0 then (0, 0)
                 else snd (av_opt_get_q api obj n)) in
     case w of
       Some (VInt2 a b) \<Rightarrow>
         Drawn (snd (av_opt_set_q api obj n (a, b))) (Some (VInt2 (fst rate) (snd rate)))
     | _ \<Rightarrow> Drawn obj (Some (VInt2 (fst rate) (snd rate))))"

definition draw_option ::
  "('o, 'd, 'f) avopt \<Rightarrow> AVOption \<Rightarrow> ('d, 'f) wvalue option \<Rightarrow> 'o \<Rightarrow> ('o, 'd, 'f) drawn" where
  "draw_option api opt w obj =
    (case opt_type opt of
       AV_OPT_TYPE_INT64 \<Rightarrow> draw_int64 api (opt_name opt) w obj
     | AV_OPT_TYPE_UINT64 \<Rightarrow> draw_uint64 api (opt_name opt) w obj
     | AV_OPT_TYPE_DURATION \<Rightarrow> NotModelled
     | AV_OPT_TYPE_FLAGS \<Rightarrow> draw_int api (opt_name opt) w obj
     | AV_OPT_TYPE_BOOL \<Rightarrow> draw_int api (opt_name opt) w obj
     | AV_OPT_TYPE_INT \<Rightarrow> draw_int api (opt_name opt) w obj
     | AV_OPT_TYPE_DOUBLE \<Rightarrow> draw_double api (opt_name opt) w obj
     | AV_OPT_TYPE_FLOAT \<Rightarrow> draw_float api (opt_name opt) w obj
     | AV_OPT_TYPE_STRING \<Rightarrow> draw_string api (opt_name opt) w obj
     | AV_OPT_TYPE_RATIONAL \<Rightarrow> draw_rational api (opt_name opt) w obj
     | AV_OPT_TYPE_BINARY \<Rightarrow> Drawn obj None
     | AV_OPT_TYPE_DICT \<Rightarrow> Drawn obj None
     | AV_OPT_TYPE_IMAGE_SIZE \<Rightarrow> NotModelled
     | AV_OPT_TYPE_VIDEO_RATE \<Rightarrow> NotModelled
     | AV_OPT_TYPE_PIXEL_FMT \<Rightarrow> Drawn obj None
     | AV_OPT_TYPE_SAMPLE_FMT \<Rightarrow> Drawn obj None
     | AV_OPT_TYPE_COLOR \<Rightarrow> NotModelled
     | AV_OPT_TYPE_CHLAYOUT \<Rightarrow> Drawn obj None
     | AV_OPT_TYPE_CONST \<Rightarrow> Drawn obj None)"

text \<open>The contract of the engine that a round trip relies on: a value that the engine has
  accepted for an option is the value it returns for it.\<close>

definition keeps_int :: "('o, 'd, 'f) avopt \<Rightarrow> 'o \<Rightarrow> string \<Rightarrow> bool" where
  "keeps_int api obj n \<longleftrightarrow>
     (\<forall>x obj'. av_opt_set_int api obj n x = (0, obj') \<longrightarrow> av_opt_get_int api obj' n = (0, x))"

definition keeps_double :: "('o, 'd, 'f) avopt \<Rightarrow> 'o \<Rightarrow> string \<Rightarrow> bool" where
  "keeps_double api obj n \<longleftrightarrow>
     (\<forall>x obj'. av_opt_set_double api obj n x = (0, obj') \<longrightarrow>
               av_opt_get_double api obj' n = (0, x))"

definition keeps_string :: "('o, 'd, 'f) avopt \<Rightarrow> 'o \<Rightarrow> string \<Rightarrow> bool" where
  "keeps_string api obj n \<longleftrightarrow>
     (\<forall>x obj'. av_opt_set api obj n x = (0, obj') \<longrightarrow> av_opt_get api obj' n = (0, Some x))"

definition keeps_q :: "('o, 'd, 'f) avopt \<Rightarrow> 'o \<Rightarrow> string \<Rightarrow> bool" where
  "keeps_q api obj n \<longleftrightarrow>
     (\<forall>x obj'. av_opt_set_q api obj n x = (0, obj') \<longrightarrow> av_opt_get_q api obj' n = (0, x))"

section \<open>Concrete inputs\<close>

text \<open>A small graph used to run the definitions: a \<open>buffersink\<close> node (with one video input)
  and a source node (with one video output), both already probed by the editor, one link
  from the source's output slot to the sink's input slot, and the producer thread of an
  earlier rebuild still joinable.\<close>

definition ex_buffersink :: AVFilter where
  "ex_buffersink = \<lparr>name = ''buffersink'', inputs = [AVMEDIA_TYPE_VIDEO], outputs = [],
     dynamic_inputs = False, dynamic_outputs = False, support_timeline = False,
     process_command = False\<rparr>"

definition ex_testsrc :: AVFilter where
  "ex_testsrc = \<lparr>name = ''testsrc'', inputs = [], outputs = [AVMEDIA_TYPE_VIDEO],
     dynamic_inputs = False, dynamic_outputs = False, support_timeline = False,
     process_command = False\<rparr>"

definition ex_node :: "nat \<Rightarrow> AVFilter \<Rightarrow> string \<Rightarrow> FilterNode" where
  "ex_node i f l = \<lparr>node_id = i, edge = 0, colapsed = False, node_filter = Some f,
     filter_name = Some (name f), filter_label = Some l, ctx_options = None,
     filter_options = None, probe = Some (new_context f (Some ''probe'')),
     probe_graph = Some \<lparr>filters = [new_context f (Some ''probe'')]\<rparr>, node_ctx = None\<rparr>"

definition ex_old_sink :: BufferSink where
  "ex_old_sink = (new_sink (new_context ex_buffersink (Some ''buffersink0'')))
     \<lparr>label := Some ''FilterGraph Output 0'', frame_rate := (25, 1),
      a_frame := Some (Picture 7), b_frame := Some (Picture 6), uploaded_frame := True,
      texture := Some 1\<rparr>"

definition ex_state :: gstate where
  "ex_state = \<lparr>need_filters_reinit = True, show_buffersink_window = True,
     show_dumpgraph_window = True, framestep = False, paused = True,
     focus_buffersink_window = None,
     filter_graph = Some \<lparr>filters = [new_context ex_buffersink (Some ''buffersink0'')]\<rparr>,
     graphdump_text = Some ''old dump'',
     buffer_sinks = [ex_old_sink], mutexes = [Mutex], video_sink_threads = [Worker 0],
     filter_nodes = [ex_node 0 ex_buffersink ''buffersink0'', ex_node 1 ex_testsrc ''testsrc1''],
     filter_links = [(3, 1)],
     edge2type = [(0, AVMEDIA_TYPE_UNKNOWN), (1, AVMEDIA_TYPE_VIDEO),
                  (2, AVMEDIA_TYPE_UNKNOWN), (3, AVMEDIA_TYPE_VIDEO)],
     edge2pad = [\<lparr>node = 0, is_output = 0, pad_index = 0\<rparr>,
                 \<lparr>node = 0, is_output = 0, pad_index = 0\<rparr>,
                 \<lparr>node = 1, is_output = 0, pad_index = 0\<rparr>,
                 \<lparr>node = 1, is_output = 1, pad_index = 0\<rparr>],
     trace = []\<rparr>"

text \<open>An engine that accepts every call, and one whose \<open>avfilter_init_str\<close> fails with
  \<open>AVERROR(EINVAL)\<close> for the node of index 1.\<close>

definition ex_engine :: engine where
  "ex_engine = \<lparr>graph_alloc_ok = True, alloc_filter_ok = (\<lambda>i. True),
     set_pix_fmts = (\<lambda>i. 0), serialize_ctx = (\<lambda>i. (0, Some '''')),
     serialize_priv = (\<lambda>i. (0, Some '''')), set_ctx_options = (\<lambda>i. 0),
     set_priv_options = (\<lambda>i. 0), init_str = (\<lambda>i. 0), link_pads = (\<lambda>i. 0),
     graph_config = 0, auto_inserted = [], graph_dump = Some ''dump'',
     sink_time_base = (\<lambda>i. (1, 25)), sink_frame_rate = (\<lambda>i. (25, 1)),
     gen_texture = (\<lambda>i. Suc i)\<rparr>"

definition ex_failing_engine :: engine where
  "ex_failing_engine = ex_engine\<lparr>init_str := (\<lambda>i. if i = 1 then - 22 else 0)\<rparr>"

text \<open>A running sink with an empty front buffer, and the environment of a producer step
  in which no rebuild is requested, the preview is not paused and the pull fails with
  \<open>AVERROR_EOF\<close>.\<close>

definition ex_sink :: BufferSink where
  "ex_sink = (new_sink (new_context ex_buffersink (Some ''buffersink0'')))
     \<lparr>label := Some ''FilterGraph Output 0'', frame_rate := (25, 1),
      a_frame := Some Unref, b_frame := Some (Picture 6), uploaded_frame := False,
      texture := Some 1\<rparr>"

definition ex_eof :: wenv where
  "ex_eof = \<lparr>reinit = False, is_paused = False, pull_ret = AVERROR_EOF, pull_pts = 0,
     elapsed = 40\<rparr>"

text \<open>The same graph with no producer thread and no rebuild requested, and a graph of a
  video source and an audio sink with the slot tables of its editor frame.\<close>

definition ex_idle :: gstate where
  "ex_idle = ex_state\<lparr>video_sink_threads := [], need_filters_reinit := False\<rparr>"

text \<open>The graph when its source node has been deleted in the editor: the link still names
  slot 3, which the table of that editor frame gives to the deleted node 1.\<close>

definition ex_stale :: gstate where
  "ex_stale = ex_state\<lparr>filter_nodes := [ex_node 0 ex_buffersink ''buffersink0'']\<rparr>"

text \<open>The running preview, not paused, with its sink windows closed and a frame ready.\<close>

definition ex_closed :: gstate where
  "ex_closed = ex_state\<lparr>need_filters_reinit := False, paused := False,
     show_buffersink_window := False\<rparr>"

definition ex_anullsink :: AVFilter where
  "ex_anullsink = \<lparr>name = ''anullsink'', inputs = [AVMEDIA_TYPE_AUDIO], outputs = [],
     dynamic_inputs = False, dynamic_outputs = False, support_timeline = False,
     process_command = False\<rparr>"

definition ex_av :: gstate where
  "ex_av = build_tables (ex_idle\<lparr>filter_nodes :=
              [ex_node 0 ex_testsrc ''testsrc0'', ex_node 1 ex_anullsink ''anullsink1''],
            filter_links := []\<rparr>)"

definition ex_no_events :: editor_events where
  "ex_no_events = \<lparr>link_created = None, link_destroyed = None, selected_links = [],
     selected_nodes = [], key_X_released = False\<rparr>"

text \<open>The keys of a UI frame in which the focused sink window gets the single-step key, and
  of one in which it gets no key.\<close>

definition ex_keys_none :: ui_keys where
  "ex_keys_none = \<lparr>begin_visible = True, close_clicked = False, window_focused = True,
     key_F_released = False, key_Space_released = False, key_Period_pressed = False,
     key_Q_down = False, key_Shift = False, key_O_released = False, key_digit_down = False,
     key_Ctrl = False, window_at = (100, 100)\<rparr>"

definition ex_keys_step :: ui_keys where
  "ex_keys_step = ex_keys_none\<lparr>key_Period_pressed := True\<rparr>"

definition ex_poll :: wenv where
  "ex_poll = \<lparr>reinit = False, is_paused = True, pull_ret = 0, pull_pts = 8, elapsed = 40\<rparr>"

text \<open>A live graph after a rebuild: a source, a timeline-capable filter and a sink, each
  node with its context in the graph, one Output with its mutex, no producer joinable.
  In the command window the second node is selected and opened, and its toggle button is
  pressed.\<close>

definition ex_hue :: AVFilter where
  "ex_hue = \<lparr>name = ''hue'', inputs = [AVMEDIA_TYPE_VIDEO], outputs = [AVMEDIA_TYPE_VIDEO],
     dynamic_inputs = False, dynamic_outputs = False, support_timeline = True,
     process_command = True\<rparr>"

definition ex_live_node :: "nat \<Rightarrow> AVFilter \<Rightarrow> string \<Rightarrow> FilterNode" where
  "ex_live_node i f l = (ex_node i f l)\<lparr>node_ctx := Some (new_context f (Some l))\<rparr>"

definition ex_live :: gstate where
  "ex_live = ex_idle\<lparr>
     filter_nodes := [ex_live_node 0 ex_testsrc ''testsrc0'', ex_live_node 1 ex_hue ''hue1'',
                      ex_live_node 2 ex_buffersink ''buffersink2''],
     filter_graph := Some \<lparr>filters = [new_context ex_testsrc (Some ''testsrc0''),
                                       new_context ex_hue (Some ''hue1''),
                                       new_context ex_buffersink (Some ''buffersink2'')]\<rparr>\<rparr>"

definition ex_cmd_ui :: cmd_ui where
  "ex_cmd_ui = \<lparr>window_begin = True, listbox_begin = True, pass_filter = (\<lambda>n. True),
     selectable_pressed = (\<lambda>n. False), item_clicked = (\<lambda>n. False),
     timeline_open = (\<lambda>n. True), toggle_pressed = (\<lambda>n. n = 1)\<rparr>"

definition ex_cmd_state :: cmd_state where
  "ex_cmd_state = \<lparr>selected_filter = Some 1, toggle_filter = None, is_opened = True\<rparr>"

text \<open>An option store to run the option editor on: one association list for each of the
  four groups of accessors; an option that is not in the list is not found (code \<open>- 1\<close>),
  every value is accepted. The integers stand for both floating-point types.\<close>

record ex_obj =
  ints :: "(string \<times> 64 word) list"
  dbls :: "(string \<times> int) list"
  strs :: "(string \<times> string) list"
  rats :: "(string \<times> 32 word \<times> 32 word) list"

definition ex_api :: "(ex_obj, int, int) avopt" where
  "ex_api = \<lparr>
     av_opt_get_int = (\<lambda>obj n. case map_of (ints obj) n of None \<Rightarrow> (- 1, 0) | Some x \<Rightarrow> (0, x)),
     av_opt_set_int = (\<lambda>obj n x. case map_of (ints obj) n of None \<Rightarrow> (- 1, obj)
                                  | Some y \<Rightarrow> (0, obj\<lparr>ints := (n, x) # ints obj\<rparr>)),
     av_opt_get_double = (\<lambda>obj n. case map_of (dbls obj) n of None \<Rightarrow> (- 1, 0) | Some x \<Rightarrow> (0, x)),
     av_opt_set_double = (\<lambda>obj n x. case map_of (dbls obj) n of None \<Rightarrow> (- 1, obj)
                                  | Some y \<Rightarrow> (0, obj\<lparr>dbls := (n, x) # dbls obj\<rparr>)),
     av_opt_get = (\<lambda>obj n. case map_of (strs obj) n of None \<Rightarrow> (- 1, None)
                                  | Some x \<Rightarrow> (0, Some x)),
     av_opt_set = (\<lambda>obj n x. case map_of (strs obj) n of None \<Rightarrow> (- 1, obj)
                                  | Some y \<Rightarrow> (0, obj\<lparr>strs := (n, x) # strs obj\<rparr>)),
     av_opt_get_q = (\<lambda>obj n. case map_of (rats obj) n of None \<Rightarrow> (- 1, (0, 0))
                                  | Some x \<Rightarrow> (0, x)),
     av_opt_set_q = (\<lambda>obj n x. case map_of (rats obj) n of None \<Rightarrow> (- 1, obj)
                                  | Some y \<Rightarrow> (0, obj\<lparr>rats := (n, x) # rats obj\<rparr>)),
     to_float = (\<lambda>x. x), to_double = (\<lambda>x. x)\<rparr>"

definition ex_priv :: ex_obj where
  "ex_priv = \<lparr>ints = [(''h'', 0), (''eval'', 0)], dbls = [(''s'', 1)],
              strs = [(''expr'', ''n'')], rats = [(''rate'', (25, 1))]\<rparr>"

definition ex_opt :: "string \<Rightarrow> AVOptionType \<Rightarrow> AVOption" where
  "ex_opt n t = \<lparr>opt_name = n, offset = 0, opt_type = t\<rparr>"

text \<open>A run of one sink with its producer, paused. In the first UI frame the front buffer
  is empty and the producer, at its pull, publishes the picture 8 between the two critical
  sections of the consumer, while the single-step key is pressed. Before the second UI
  frame the producer pulls the picture 9. In the second UI frame the single-step key is
  pressed again, and afterwards the producer starts its next pull.\<close>

definition ex_wait :: gstate where
  "ex_wait = ex_idle\<lparr>buffer_sinks := [ex_sink], video_sink_threads := [Worker 0]\<rparr>"

definition ex_race1 :: gstate where
  "ex_race1 = fst (render_sink ex_keys_step (AtPull, [ex_poll]) 0 ex_wait)"

definition ex_race2 :: gstate where
  "ex_race2 = producer_runs
     (AtInnerTest, [ex_poll\<lparr>pull_pts := 9\<rparr>, ex_poll\<lparr>pull_pts := 9\<rparr>]) 0 ex_race1"

definition ex_race3 :: gstate where
  "ex_race3 = fst (render_sink ex_keys_step (AtInnerTest, []) 0 ex_race2)"

definition ex_race4 :: gstate where
  "ex_race4 = producer_runs (AtInnerTest, [ex_poll]) 0 ex_race3"

section \<open>Properties of \<open>filters_setup\<close>\<close>

subsection \<open>The trace of a rebuild\<close>

lemma join_from_set:
  "set (join_from n ts) = {Join (n + i) | i. i < length ts \<and> joinable (ts ! i)}"
proof (induction ts arbitrary: n)
  case Nil
  then show ?case by simp
next
  case (Cons t ts)
  have "{Join (n + i) | i. i < length (t # ts) \<and> joinable ((t # ts) ! i)}
      = (if joinable t then {Join n} else {}) \<union> {Join (Suc n + i) | i. i < length ts \<and> joinable (ts ! i)}"
    apply (auto simp: less_Suc_eq_0_disj)
    done
  then show ?case using Cons.IH [of "Suc n"] by auto
qed

lemma join_from_only_joins: "e \<in> set (join_from n ts) \<Longrightarrow> \<exists>i. e = Join i"
  by (auto simp: join_from_set)

lemma setup_node_trace: "\<exists>t. trace (st (setup_node eng i s)) = trace s @ t"
  unfolding setup_node_def by (simp add: Let_def split: option.split)

lemma setup_nodes_trace: "\<exists>t. trace (st (setup_nodes eng is s)) = trace s @ t"
proof (induction "is" arbitrary: s)
  case Nil
  then show ?case by simp
next
  case (Cons i "is")
  obtain t where t: "trace (st (setup_node eng i s)) = trace s @ t"
    using setup_node_trace by blast
  show ?case
  proof (cases "setup_node eng i s")
    case (Continue s')
    then obtain u where "trace (st (setup_nodes eng is s')) = trace s' @ u"
      using Cons.IH by blast
    with t Continue show ?thesis by simp
  qed (use t in auto)
qed

lemma setup_link_trace: "\<exists>t. trace (st (setup_link eng i s)) = trace s @ t"
  unfolding setup_link_def by (simp add: Let_def)

lemma setup_links_trace: "\<exists>t. trace (st (setup_links eng is s)) = trace s @ t"
proof (induction "is" arbitrary: s)
  case Nil
  then show ?case by simp
next
  case (Cons i "is")
  obtain t where t: "trace (st (setup_link eng i s)) = trace s @ t"
    using setup_link_trace by blast
  show ?case
  proof (cases "setup_link eng i s")
    case (Continue s')
    then obtain u where "trace (st (setup_links eng is s')) = trace s' @ u"
      using Cons.IH by blast
    with t Continue show ?thesis by simp
  qed (use t in auto)
qed

lemma config_graph_trace: "\<exists>t. trace (st (config_graph eng s)) = trace s @ t"
  unfolding config_graph_def by (simp add: Let_def)

lemma build_graph_trace: "\<exists>t. trace (st (build_graph eng s)) = trace s @ t"
proof -
  obtain t1 where t1: "trace (st (setup_nodes eng [0..<length (filter_nodes s)] s)) = trace s @ t1"
    using setup_nodes_trace by blast
  show ?thesis
  proof (cases "setup_nodes eng [0..<length (filter_nodes s)] s")
    case (Continue s1)
    obtain t2 where t2: "trace (st (setup_links eng [0..<length (filter_links s1)] s1)) = trace s1 @ t2"
      using setup_links_trace by blast
    show ?thesis
    proof (cases "setup_links eng [0..<length (filter_links s1)] s1")
      case c2: (Continue s2)
      obtain t3 where "trace (st (config_graph eng s2)) = trace s2 @ t3"
        using config_graph_trace by blast
      with t1 t2 Continue c2 show ?thesis by (simp add: build_graph_def)
    qed (use t1 t2 Continue in \<open>auto simp: build_graph_def\<close>)
  qed (use t1 in \<open>auto simp: build_graph_def\<close>)
qed

lemma spawn_workers_trace: "\<exists>t. trace (final (spawn_workers eng r s)) = trace s @ t"
  unfolding spawn_workers_def by (simp add: Let_def)

lemma filters_setup_trace:
  assumes "need_filters_reinit s"
  shows "\<exists>rest. trace (final (filters_setup eng s))
           = trace s @ join_from 0 (video_sink_threads s) @ [ClearThreads] @ rest"
proof (cases "filter_nodes s = []")
  case True
  with assms show ?thesis by (simp add: filters_setup_def join_all_def Let_def)
next
  case False
  define s5 where "s5 = s\<lparr>video_sink_threads := [], need_filters_reinit := False,
      buffer_sinks := [], mutexes := [], graphdump_text := None,
      filter_graph := (if graph_alloc_ok eng then Some \<lparr>filters = []\<rparr> else None),
      trace := trace s @ join_from 0 (video_sink_threads s) @ [ClearThreads]
                 @ [ClearSinks, ClearMutexes, FreeDump, GraphFree, GraphAlloc]\<rparr>"
  have fs: "filters_setup eng s =
     (if filter_graph s5 = None then Return (AVERROR ENOMEM) s5
      else case build_graph eng s5 of
             Undefined s6 \<Rightarrow> Crash s6
           | Abort ret s6 \<Rightarrow> spawn_workers eng ret s6
           | Continue s6 \<Rightarrow> spawn_workers eng (graph_config eng) s6)"
    using assms False by (simp add: filters_setup_def join_all_def Let_def s5_def)
  obtain t where t: "trace (st (build_graph eng s5)) = trace s5 @ t"
    using build_graph_trace by blast
  have tr5: "trace s5 = trace s @ join_from 0 (video_sink_threads s) @ [ClearThreads]
                 @ [ClearSinks, ClearMutexes, FreeDump, GraphFree, GraphAlloc]"
    by (simp add: s5_def)
  show ?thesis
  proof (cases "filter_graph s5 = None")
    case True
    then show ?thesis using fs tr5 by simp
  next
    case ng: False
    show ?thesis
    proof (cases "build_graph eng s5")
      case (Undefined s6)
      then show ?thesis using fs ng t tr5 by simp
    next
      case (Abort r s6)
      obtain u where "trace (final (spawn_workers eng r s6)) = trace s6 @ u"
        using spawn_workers_trace by blast
      then show ?thesis using fs ng t tr5 Abort by simp
    next
      case (Continue s6)
      obtain u where "trace (final (spawn_workers eng (graph_config eng) s6)) = trace s6 @ u"
        using spawn_workers_trace by blast
      then show ?thesis using fs ng t tr5 Continue by simp
    qed
  qed
qed

subsection \<open>Sinks made by the node loop\<close>

lemma length_join_sinks: "length (join_sinks ts bs) = length bs"
  by (induction ts bs rule: join_sinks.induct) simp_all

lemma setup_node_frame:
  "video_sink_threads (st (setup_node eng i s)) = video_sink_threads s
   \<and> mutexes (st (setup_node eng i s)) = mutexes s
   \<and> length (filter_nodes (st (setup_node eng i s))) = length (filter_nodes s)"
  unfolding setup_node_def by (simp add: Let_def split: option.split)

lemma setup_node_filters:
  "map node_filter (filter_nodes (st (setup_node eng i s))) = map node_filter (filter_nodes s)"
proof (cases "i < length (filter_nodes s)")
  case True
  then show ?thesis
    unfolding setup_node_def
    by (simp add: Let_def map_update list_update_same_conv split: option.split)
next
  case False
  then show ?thesis
    unfolding setup_node_def by (simp add: Let_def list_update_beyond split: option.split)
qed

lemma setup_node_Continue:
  "setup_node eng i s = Continue s' \<Longrightarrow>
     length (buffer_sinks s') =
       length (buffer_sinks s) + (if is_buffersink (filter_nodes s ! i) then 1 else 0)"
  unfolding setup_node_def is_buffersink_def
  by (auto simp: Let_def split: option.splits if_splits)

lemma setup_node_Abort:
  "setup_node eng i s = Abort r s' \<Longrightarrow>
     r < 0 \<and> length (buffer_sinks s') \<le>
       length (buffer_sinks s) + (if is_buffersink (filter_nodes s ! i) then 1 else 0)"
  unfolding setup_node_def is_buffersink_def
  by (auto simp: Let_def AVERROR_def ENOSYS_def ENOMEM_def split: option.splits if_splits)

lemma is_buffersink_cong:
  assumes "map node_filter ns' = map node_filter ns" "i < length ns"
  shows "is_buffersink (ns' ! i) = is_buffersink (ns ! i)"
proof -
  have "length ns' = length ns" using assms(1) by (metis length_map)
  then have "node_filter (ns' ! i) = node_filter (ns ! i)"
    using assms by (metis nth_map)
  then show ?thesis by (simp add: is_buffersink_def)
qed

lemma sinks_among_cong:
  assumes "map node_filter ns' = map node_filter ns" "\<forall>i\<in>set js. i < length ns"
  shows "sinks_among ns' js = sinks_among ns js"
proof -
  have "\<And>i. i \<in> set js \<Longrightarrow> is_buffersink (ns' ! i) = is_buffersink (ns ! i)"
    using assms is_buffersink_cong by blast
  then have "filter (\<lambda>i. is_buffersink (ns' ! i)) js = filter (\<lambda>i. is_buffersink (ns ! i)) js"
    by (rule filter_cong [OF refl])
  then show ?thesis by (simp only: sinks_among_def)
qed

lemma sinks_among_upt: "sinks_among ns [0..<length ns] = length (filter is_buffersink ns)"
proof -
  have "filter is_buffersink (map ((!) ns) [0..<length ns])
      = map ((!) ns) (filter (is_buffersink \<circ> (!) ns) [0..<length ns])"
    by (rule filter_map)
  then have "filter is_buffersink ns
      = map ((!) ns) (filter (is_buffersink \<circ> (!) ns) [0..<length ns])"
    by (simp only: map_nth)
  then have "length (filter is_buffersink ns)
      = length (filter (is_buffersink \<circ> (!) ns) [0..<length ns])"
    by (simp only: length_map)
  then show ?thesis by (simp add: sinks_among_def comp_def)
qed

lemma setup_nodes_frame:
  "video_sink_threads (st (setup_nodes eng js s)) = video_sink_threads s
   \<and> mutexes (st (setup_nodes eng js s)) = mutexes s
   \<and> map node_filter (filter_nodes (st (setup_nodes eng js s))) = map node_filter (filter_nodes s)"
proof (induction js arbitrary: s)
  case Nil
  then show ?case by simp
next
  case (Cons i js)
  note f = setup_node_frame [where eng=eng and i=i and s=s]
           setup_node_filters [where eng=eng and i=i and s=s]
  show ?case
  proof (cases "setup_node eng i s")
    case (Continue s')
    with f Cons.IH [of s'] show ?thesis by simp
  qed (use f in auto)
qed

lemma setup_nodes_Continue:
  assumes "\<forall>i\<in>set js. i < length (filter_nodes s)" "setup_nodes eng js s = Continue s'"
  shows "length (buffer_sinks s') = length (buffer_sinks s) + sinks_among (filter_nodes s) js"
  using assms
proof (induction js arbitrary: s)
  case Nil
  then show ?case by (simp add: sinks_among_def)
next
  case (Cons i js)
  from Cons.prems(2) obtain s1 where s1: "setup_node eng i s = Continue s1"
    and rest: "setup_nodes eng js s1 = Continue s'"
    by (cases "setup_node eng i s") simp_all
  have fr: "map node_filter (filter_nodes s1) = map node_filter (filter_nodes s)"
    "length (filter_nodes s1) = length (filter_nodes s)"
    using setup_node_filters [where eng=eng and i=i and s=s]
      setup_node_frame [where eng=eng and i=i and s=s] s1 by simp_all
  have rng: "\<forall>j\<in>set js. j < length (filter_nodes s1)" using Cons.prems(1) fr by simp
  have eq: "sinks_among (filter_nodes s1) js = sinks_among (filter_nodes s) js"
    using sinks_among_cong [OF fr(1)] Cons.prems(1) by simp
  have hd: "sinks_among (filter_nodes s) (i # js) =
      (if is_buffersink (filter_nodes s ! i) then 1 else 0) + sinks_among (filter_nodes s) js"
    by (simp add: sinks_among_def)
  show ?case
    using Cons.IH [OF rng rest] setup_node_Continue [OF s1] eq hd by simp
qed

lemma setup_nodes_Abort:
  assumes "\<forall>i\<in>set js. i < length (filter_nodes s)" "setup_nodes eng js s = Abort r s'"
  shows "r < 0 \<and> length (buffer_sinks s') \<le>
           length (buffer_sinks s) + sinks_among (filter_nodes s) js"
  using assms
proof (induction js arbitrary: s)
  case Nil
  then show ?case by simp
next
  case (Cons i js)
  have hd: "sinks_among (filter_nodes s) (i # js) =
      (if is_buffersink (filter_nodes s ! i) then 1 else 0) + sinks_among (filter_nodes s) js"
    by (simp add: sinks_among_def)
  show ?case
  proof (cases "setup_node eng i s")
    case (Continue s1)
    then have rest: "setup_nodes eng js s1 = Abort r s'" using Cons.prems(2) by simp
    have fr: "map node_filter (filter_nodes s1) = map node_filter (filter_nodes s)"
      "length (filter_nodes s1) = length (filter_nodes s)"
      using setup_node_filters [where eng=eng and i=i and s=s]
        setup_node_frame [where eng=eng and i=i and s=s] Continue by simp_all
    have rng: "\<forall>j\<in>set js. j < length (filter_nodes s1)" using Cons.prems(1) fr by simp
    have eq: "sinks_among (filter_nodes s1) js = sinks_among (filter_nodes s) js"
      using sinks_among_cong [OF fr(1)] Cons.prems(1) by simp
    show ?thesis
      using Cons.IH [OF rng rest] setup_node_Continue [OF Continue] eq hd by simp
  next
    case (Abort r1 s1)
    then have "r1 = r" "s1 = s'" using Cons.prems(2) by simp_all
    then show ?thesis using setup_node_Abort [of eng i s r s'] Abort hd by simp
  next
    case (Undefined s1)
    then show ?thesis using Cons.prems(2) by simp
  qed
qed

lemma setup_link_frame:
  "video_sink_threads (st (setup_link eng i s)) = video_sink_threads s
   \<and> mutexes (st (setup_link eng i s)) = mutexes s
   \<and> buffer_sinks (st (setup_link eng i s)) = buffer_sinks s
   \<and> filter_nodes (st (setup_link eng i s)) = filter_nodes s
   \<and> (\<forall>r s'. setup_link eng i s = Abort r s' \<longrightarrow> r < 0)"
  unfolding setup_link_def by (simp add: Let_def AVERROR_def EINVAL_def)

lemma setup_links_frame:
  "video_sink_threads (st (setup_links eng js s)) = video_sink_threads s
   \<and> mutexes (st (setup_links eng js s)) = mutexes s
   \<and> buffer_sinks (st (setup_links eng js s)) = buffer_sinks s
   \<and> filter_nodes (st (setup_links eng js s)) = filter_nodes s
   \<and> (\<forall>r s'. setup_links eng js s = Abort r s' \<longrightarrow> r < 0)"
proof (induction js arbitrary: s)
  case Nil
  then show ?case by simp
next
  case (Cons i js)
  note f = setup_link_frame [where eng=eng and i=i and s=s]
  show ?case
  proof (cases "setup_link eng i s")
    case (Continue s')
    with f Cons.IH [of s'] show ?thesis by simp
  qed (use f in auto)
qed

lemma config_graph_frame:
  "video_sink_threads (st (config_graph eng s)) = video_sink_threads s
   \<and> mutexes (st (config_graph eng s)) = mutexes s
   \<and> buffer_sinks (st (config_graph eng s)) = buffer_sinks s
   \<and> filter_nodes (st (config_graph eng s)) = filter_nodes s
   \<and> (\<forall>r s'. config_graph eng s = Abort r s' \<longrightarrow> r < 0)
   \<and> (\<forall>s'. config_graph eng s = Continue s' \<longrightarrow> 0 \<le> graph_config eng)
   \<and> (\<forall>s'. config_graph eng s \<noteq> Undefined s')"
  unfolding config_graph_def by (simp add: Let_def)

lemma build_graph_frame:
  "video_sink_threads (st (build_graph eng s)) = video_sink_threads s
   \<and> mutexes (st (build_graph eng s)) = mutexes s
   \<and> map node_filter (filter_nodes (st (build_graph eng s))) = map node_filter (filter_nodes s)"
proof -
  let ?n = "setup_nodes eng [0..<length (filter_nodes s)] s"
  note fr = setup_nodes_frame [where eng=eng and js="[0..<length (filter_nodes s)]" and s=s]
  show ?thesis
  proof (cases ?n)
    case (Continue s1)
    let ?l = "setup_links eng [0..<length (filter_links s1)] s1"
    note lf = setup_links_frame [where eng=eng and js="[0..<length (filter_links s1)]" and s=s1]
    show ?thesis
    proof (cases ?l)
      case c2: (Continue s2)
      note cf = config_graph_frame [where eng=eng and s=s2]
      show ?thesis
        using Continue c2 fr lf cf by (simp add: build_graph_def)
    qed (use Continue fr lf in \<open>simp_all add: build_graph_def\<close>)
  qed (use fr in \<open>simp_all add: build_graph_def\<close>)
qed

lemma build_graph_Continue:
  assumes "build_graph eng s = Continue s'"
  shows "0 \<le> graph_config eng \<and> length (buffer_sinks s') =
            length (buffer_sinks s) + length (filter is_buffersink (filter_nodes s))"
proof (cases "setup_nodes eng [0..<length (filter_nodes s)] s")
  case (Continue s1)
  have len1: "length (buffer_sinks s1) =
      length (buffer_sinks s) + length (filter is_buffersink (filter_nodes s))"
    using setup_nodes_Continue [OF _ Continue] by (simp add: sinks_among_upt)
  note lf = setup_links_frame [where eng=eng and js="[0..<length (filter_links s1)]" and s=s1]
  show ?thesis
  proof (cases "setup_links eng [0..<length (filter_links s1)] s1")
    case c2: (Continue s2)
    then have c: "config_graph eng s2 = Continue s'"
      using assms Continue by (simp add: build_graph_def)
    show ?thesis
      using config_graph_frame [where eng=eng and s=s2] c lf c2 len1 by simp
  next
    case (Abort r2 s2)
    then show ?thesis using assms Continue by (simp add: build_graph_def)
  next
    case (Undefined s2)
    then show ?thesis using assms Continue by (simp add: build_graph_def)
  qed
next
  case (Abort r1 s1)
  then show ?thesis using assms by (simp add: build_graph_def)
next
  case (Undefined s1)
  then show ?thesis using assms by (simp add: build_graph_def)
qed

lemma build_graph_Abort:
  assumes "build_graph eng s = Abort r s'"
  shows "r < 0 \<and> length (buffer_sinks s') \<le>
            length (buffer_sinks s) + length (filter is_buffersink (filter_nodes s))"
proof (cases "setup_nodes eng [0..<length (filter_nodes s)] s")
  case (Continue s1)
  have len1: "length (buffer_sinks s1) =
      length (buffer_sinks s) + length (filter is_buffersink (filter_nodes s))"
    using setup_nodes_Continue [OF _ Continue] by (simp add: sinks_among_upt)
  note lf = setup_links_frame [where eng=eng and js="[0..<length (filter_links s1)]" and s=s1]
  show ?thesis
  proof (cases "setup_links eng [0..<length (filter_links s1)] s1")
    case c2: (Continue s2)
    then have c: "config_graph eng s2 = Abort r s'"
      using assms Continue by (simp add: build_graph_def)
    show ?thesis
      using config_graph_frame [where eng=eng and s=s2] c lf c2 len1 by simp
  next
    case (Abort r2 s2)
    then have "r2 = r" "s2 = s'" using assms Continue by (simp_all add: build_graph_def)
    then show ?thesis using lf Abort len1 by simp
  next
    case (Undefined s2)
    then show ?thesis using assms Continue by (simp add: build_graph_def)
  qed
next
  case (Abort r1 s1)
  then have "r1 = r" "s1 = s'" using assms by (simp_all add: build_graph_def)
  then show ?thesis
    using setup_nodes_Abort [OF _ Abort] by (simp add: sinks_among_upt)
next
  case (Undefined s1)
  then show ?thesis using assms by (simp add: build_graph_def)
qed

lemma setup_link_graph:
  "filter_nodes (st (setup_link eng i s)) = filter_nodes s
   \<and> filter_graph (st (setup_link eng i s)) = filter_graph s"
  unfolding setup_link_def by (simp add: Let_def)

lemma setup_links_graph:
  "filter_nodes (st (setup_links eng js s)) = filter_nodes s
   \<and> filter_graph (st (setup_links eng js s)) = filter_graph s"
proof (induction js arbitrary: s)
  case Nil
  then show ?case by simp
next
  case (Cons i js)
  note f = setup_link_graph [where eng=eng and i=i and s=s]
  show ?case
  proof (cases "setup_link eng i s")
    case (Continue s')
    with f Cons.IH [of s'] show ?thesis by simp
  qed (use f in auto)
qed

subsection \<open>The sinks pushed before a failing step, and the runs without undefined reads\<close>

lemma setup_node_pushed:
  assumes "setup_node eng i s = Continue s' \<or> setup_node eng i s = Abort r s'"
  shows "length (buffer_sinks s') =
           length (buffer_sinks s) + (if sink_pushed eng i (filter_nodes s ! i) then 1 else 0)"
    and "node_passes eng i (filter_nodes s ! i) \<longleftrightarrow> setup_node eng i s = Continue s'"
  using assms
  unfolding setup_node_def is_buffersink_def sink_pushed_def node_passes_def
  by (auto simp: Let_def split: option.splits if_splits)

lemma setup_node_tables:
  "map probe (filter_nodes (st (setup_node eng i s))) = map probe (filter_nodes s)
   \<and> filter_links (st (setup_node eng i s)) = filter_links s
   \<and> edge2pad (st (setup_node eng i s)) = edge2pad s"
proof (cases "i < length (filter_nodes s)")
  case True
  then show ?thesis
    unfolding setup_node_def
    by (simp add: Let_def map_update list_update_same_conv split: option.split)
next
  case False
  then show ?thesis
    unfolding setup_node_def by (simp add: Let_def list_update_beyond split: option.split)
qed

lemma setup_node_defined:
  "probe (filter_nodes s ! i) \<noteq> None \<Longrightarrow> setup_node eng i s \<noteq> Undefined s'"
  unfolding setup_node_def by (auto simp: Let_def split: option.split)

lemma pushed_sinks_cong:
  assumes "map node_filter ns' = map node_filter ns" "\<forall>i\<in>set js. i < length ns"
  shows "pushed_sinks eng ns' js = pushed_sinks eng ns js"
  using assms(2)
proof (induction js)
  case Nil
  then show ?case by simp
next
  case (Cons i js)
  have "length ns' = length ns" using assms(1) by (metis length_map)
  then have "node_filter (ns' ! i) = node_filter (ns ! i)"
    using assms(1) Cons.prems by (metis list.set_intros(1) nth_map)
  then have "sink_pushed eng i (ns' ! i) = sink_pushed eng i (ns ! i)"
    "node_passes eng i (ns' ! i) = node_passes eng i (ns ! i)"
    by (simp_all add: sink_pushed_def node_passes_def is_buffersink_def)
  then show ?case using Cons by simp
qed

lemma setup_nodes_pushed:
  assumes "\<forall>i\<in>set js. i < length (filter_nodes s)"
    and "setup_nodes eng js s = Continue s' \<or> setup_nodes eng js s = Abort r s'"
  shows "length (buffer_sinks s') =
           length (buffer_sinks s) + pushed_sinks eng (filter_nodes s) js"
  using assms
proof (induction js arbitrary: s)
  case Nil
  then show ?case by simp
next
  case (Cons i js)
  show ?case
  proof (cases "setup_node eng i s")
    case (Continue s1)
    then have rest: "setup_nodes eng js s1 = Continue s' \<or> setup_nodes eng js s1 = Abort r s'"
      using Cons.prems(2) by simp
    have fr: "map node_filter (filter_nodes s1) = map node_filter (filter_nodes s)"
      "length (filter_nodes s1) = length (filter_nodes s)"
      using setup_node_filters [where eng=eng and i=i and s=s]
        setup_node_frame [where eng=eng and i=i and s=s] Continue by simp_all
    have rng: "\<forall>j\<in>set js. j < length (filter_nodes s1)" using Cons.prems(1) fr by simp
    have eq: "pushed_sinks eng (filter_nodes s1) js = pushed_sinks eng (filter_nodes s) js"
      using pushed_sinks_cong [OF fr(1)] Cons.prems(1) by simp
    have p: "node_passes eng i (filter_nodes s ! i)"
      "length (buffer_sinks s1) =
         length (buffer_sinks s) + (if sink_pushed eng i (filter_nodes s ! i) then 1 else 0)"
      using setup_node_pushed [of eng i s s1 r] Continue by simp_all
    show ?thesis using Cons.IH [OF rng rest] p eq by simp
  next
    case (Abort r1 s1)
    then have e: "r1 = r" "s1 = s'" using Cons.prems(2) by simp_all
    have p: "\<not> node_passes eng i (filter_nodes s ! i)"
      "length (buffer_sinks s') =
         length (buffer_sinks s) + (if sink_pushed eng i (filter_nodes s ! i) then 1 else 0)"
      using setup_node_pushed [of eng i s s' r] Abort e by simp_all
    then show ?thesis by simp
  next
    case (Undefined s1)
    then show ?thesis using Cons.prems(2) by simp
  qed
qed

lemma setup_nodes_tables:
  "map probe (filter_nodes (st (setup_nodes eng js s))) = map probe (filter_nodes s)
   \<and> filter_links (st (setup_nodes eng js s)) = filter_links s
   \<and> edge2pad (st (setup_nodes eng js s)) = edge2pad s"
proof (induction js arbitrary: s)
  case Nil
  then show ?case by simp
next
  case (Cons i js)
  note f = setup_node_tables [where eng=eng and i=i and s=s]
  show ?case
  proof (cases "setup_node eng i s")
    case (Continue s')
    with f Cons.IH [of s'] show ?thesis by simp
  qed (use f in auto)
qed

lemma setup_nodes_defined:
  assumes "\<forall>i\<in>set js. i < length (filter_nodes s)" and "nodes_probed s"
  shows "setup_nodes eng js s \<noteq> Undefined s'"
  using assms
proof (induction js arbitrary: s)
  case Nil
  then show ?case by simp
next
  case (Cons i js)
  have "i < length (filter_nodes s)" using Cons.prems(1) by simp
  then have pr: "probe (filter_nodes s ! i) \<noteq> None"
    using Cons.prems(2) by (simp add: nodes_probed_def list_all_length)
  show ?case
  proof (cases "setup_node eng i s")
    case (Continue s1)
    have fr: "map probe (filter_nodes s1) = map probe (filter_nodes s)"
      "length (filter_nodes s1) = length (filter_nodes s)"
      using setup_node_tables [where eng=eng and i=i and s=s]
        setup_node_frame [where eng=eng and i=i and s=s] Continue by simp_all
    have "list_all (\<lambda>p. p \<noteq> None) (map probe (filter_nodes s1))"
      using Cons.prems(2) fr(1) by (simp add: nodes_probed_def list_all_iff)
    then have np: "nodes_probed s1" by (simp add: nodes_probed_def list_all_iff)
    have rng: "\<forall>j\<in>set js. j < length (filter_nodes s1)" using Cons.prems(1) fr by simp
    show ?thesis using Cons.IH [OF rng np] Continue by simp
  next
    case (Abort r1 s1)
    then show ?thesis by simp
  next
    case (Undefined s1)
    then show ?thesis using setup_node_defined [OF pr] by blast
  qed
qed

lemma setup_link_tables:
  "filter_links (st (setup_link eng i s)) = filter_links s
   \<and> edge2pad (st (setup_link eng i s)) = edge2pad s"
  unfolding setup_link_def by (simp add: Let_def)

lemma setup_links_defined:
  assumes "\<forall>i\<in>set js. i < length (filter_links s)" and "links_in_table s"
  shows "setup_links eng js s \<noteq> Undefined s'"
  using assms
proof (induction js arbitrary: s)
  case Nil
  then show ?case by simp
next
  case (Cons i js)
  have "i < length (filter_links s)" using Cons.prems(1) by simp
  then have d: "setup_link eng i s \<noteq> Undefined s'"
    using Cons.prems(2)
    by (auto simp: links_in_table_def list_all_length setup_link_def Let_def)
  show ?case
  proof (cases "setup_link eng i s")
    case (Continue s1)
    have fr: "filter_links s1 = filter_links s" "edge2pad s1 = edge2pad s"
      using setup_link_tables [where eng=eng and i=i and s=s] Continue by simp_all
    have "links_in_table s1" using Cons.prems(2) fr by (simp add: links_in_table_def)
    then show ?thesis using Cons.IH [of s1] Cons.prems(1) fr Continue by simp
  next
    case (Abort r1 s1)
    then show ?thesis by simp
  next
    case (Undefined s1)
    then show ?thesis using d
      by (auto simp: setup_link_def Let_def split: if_splits)
  qed
qed

lemma build_graph_defined:
  assumes "links_in_table s" and "nodes_probed s"
  shows "build_graph eng s \<noteq> Undefined s'"
proof (cases "setup_nodes eng [0..<length (filter_nodes s)] s")
  case (Continue s1)
  have t: "filter_links s1 = filter_links s" "edge2pad s1 = edge2pad s"
    using setup_nodes_tables [where eng=eng and js="[0..<length (filter_nodes s)]" and s=s]
      Continue by simp_all
  then have li: "links_in_table s1" using assms(1) by (simp add: links_in_table_def)
  have d: "setup_links eng [0..<length (filter_links s1)] s1 \<noteq> Undefined s'"
    using setup_links_defined [OF _ li] by simp
  show ?thesis
  proof (cases "setup_links eng [0..<length (filter_links s1)] s1")
    case c2: (Continue s2)
    then show ?thesis
      using Continue config_graph_frame [where eng=eng and s=s2] by (simp add: build_graph_def)
  next
    case (Abort r2 s2)
    then show ?thesis using Continue by (simp add: build_graph_def)
  next
    case (Undefined s2)
    then have "setup_links eng [0..<length (filter_links s1)] s1 \<noteq> Undefined s2"
      using setup_links_defined [OF _ li, where s'=s2] by simp
    then show ?thesis using Undefined by simp
  qed
next
  case (Abort r1 s1)
  then show ?thesis by (simp add: build_graph_def)
next
  case (Undefined s1)
  then show ?thesis
    using setup_nodes_defined [OF _ assms(2), where js="[0..<length (filter_nodes s)]" and s'=s1]
    by simp
qed

lemma pushed_sinks_all:
  assumes "\<forall>i\<in>set js. i < length (filter_nodes s)" and "setup_nodes eng js s = Continue s'"
  shows "pushed_sinks eng (filter_nodes s) js = sinks_among (filter_nodes s) js"
  using setup_nodes_pushed [OF assms(1), of eng s' undefined] setup_nodes_Continue [OF assms]
    assms(2) by simp

lemma build_graph_pushed:
  assumes "build_graph eng s = Abort r s'"
  shows "r < 0 \<and> length (buffer_sinks s') =
      length (buffer_sinks s) + pushed_sinks eng (filter_nodes s) [0..<length (filter_nodes s)]"
proof (cases "setup_nodes eng [0..<length (filter_nodes s)] s")
  case (Continue s1)
  have len1: "length (buffer_sinks s1) =
      length (buffer_sinks s) + pushed_sinks eng (filter_nodes s) [0..<length (filter_nodes s)]"
    using setup_nodes_pushed [where eng=eng and js="[0..<length (filter_nodes s)]" and s=s
        and s'=s1 and r=r] Continue by simp
  note lf = setup_links_frame [where eng=eng and js="[0..<length (filter_links s1)]" and s=s1]
  show ?thesis
  proof (cases "setup_links eng [0..<length (filter_links s1)] s1")
    case c2: (Continue s2)
    then have c: "config_graph eng s2 = Abort r s'"
      using assms Continue by (simp add: build_graph_def)
    show ?thesis
      using config_graph_frame [where eng=eng and s=s2] c lf c2 len1 by simp
  next
    case (Abort r2 s2)
    then have "r2 = r" "s2 = s'" using assms Continue by (simp_all add: build_graph_def)
    then show ?thesis using lf Abort len1 by simp
  next
    case (Undefined s2)
    then show ?thesis using assms Continue by (simp add: build_graph_def)
  qed
next
  case (Abort r1 s1)
  then have e: "r1 = r" "s1 = s'" using assms by (simp_all add: build_graph_def)
  have "r < 0" using setup_nodes_Abort [OF _ Abort] e by simp
  moreover have "length (buffer_sinks s') =
      length (buffer_sinks s) + pushed_sinks eng (filter_nodes s) [0..<length (filter_nodes s)]"
    using setup_nodes_pushed [where eng=eng and js="[0..<length (filter_nodes s)]" and s=s
        and s'=s' and r=r] Abort e by simp
  ultimately show ?thesis by simp
next
  case (Undefined s1)
  then show ?thesis using assms by (simp add: build_graph_def)
qed

subsection \<open>Claim C1: producer threads are joined before the teardown\<close>

lemma ex_run_trace:
  "trace (final (filters_setup ex_engine ex_state)) =
       [Join 0, ClearThreads, ClearSinks, ClearMutexes, FreeDump, GraphFree, GraphAlloc,
        AllocFilter 0, AllocFilter 1, LinkPads 0, GraphConfig, Spawn 0]"
  by (simp add: filters_setup_def join_all_def Let_def ex_state_def ex_engine_def
      build_graph_def setup_node_def setup_link_def config_graph_def spawn_workers_def
      ex_node_def ex_buffersink_def ex_testsrc_def new_context_def new_sink_def
      upt_rec [of 0] upt_rec [of 1] upt_rec [of 2])

text \<open>
  Claim C1. In every execution of \<open>filters_setup\<close> with the rebuild flag set (also one
  that ends in an error code or in undefined behaviour), let \<open>tr\<close> be the events of this
  call. Wherever \<open>tr\<close> frees the engine instance (\<open>GraphFree\<close>) or empties the sink or
  mutex vector (\<open>ClearSinks\<close>, \<open>ClearMutexes\<close>), every thread of \<open>video_sink_threads\<close>
  that was joinable has been joined before, and the thread vector has been cleared before.
\<close>

theorem rebuild_joins_before_teardown:
  assumes "need_filters_reinit s"
    and "tr = drop (length (trace s)) (trace (final (filters_setup eng s)))"
  shows "\<forall>k<length tr. mutates_shared (tr ! k) \<longrightarrow>
           ClearThreads \<in> set (take k tr) \<and>
           (\<forall>i<length (video_sink_threads s).
               joinable (video_sink_threads s ! i) \<longrightarrow> Join i \<in> set (take k tr))"
proof (intro allI impI)
  fix k
  assume k: "k < length tr" and m: "mutates_shared (tr ! k)"
  let ?J = "join_from 0 (video_sink_threads s)"
  obtain rest where "trace (final (filters_setup eng s)) = trace s @ ?J @ [ClearThreads] @ rest"
    using filters_setup_trace [OF assms(1)] by blast
  then have tr: "tr = ?J @ ClearThreads # rest" using assms(2) by simp
  have "\<not> k < length ?J"
  proof
    assume "k < length ?J"
    then have "tr ! k \<in> set ?J" using tr by (simp add: nth_append)
    then obtain i where "tr ! k = Join i" using join_from_only_joins by blast
    with m show False by simp
  qed
  moreover have "k \<noteq> length ?J"
  proof
    assume "k = length ?J"
    then have "tr ! k = ClearThreads" using tr by (simp add: nth_append)
    with m show False by simp
  qed
  ultimately have gt: "length ?J < k" by simp
  then have tk: "take k tr = ?J @ ClearThreads # take (k - Suc (length ?J)) rest"
    using tr by (simp add: take_Cons')
  show "ClearThreads \<in> set (take k tr) \<and>
           (\<forall>i<length (video_sink_threads s).
               joinable (video_sink_threads s ! i) \<longrightarrow> Join i \<in> set (take k tr))"
  proof (intro conjI allI impI)
    show "ClearThreads \<in> set (take k tr)" using tk by simp
  next
    fix i assume "i < length (video_sink_threads s)" "joinable (video_sink_threads s ! i)"
    then have "Join i \<in> set ?J" by (auto simp: join_from_set)
    then show "Join i \<in> set (take k tr)" using tk by simp
  qed
qed

theorem rebuild_joins_before_teardown_witness:
  "need_filters_reinit ex_state \<and>
   mutates_shared (trace (final (filters_setup ex_engine ex_state)) ! 2) \<and>
   joinable (video_sink_threads ex_state ! 0) \<and>
   ClearThreads \<in> set (take 2 (trace (final (filters_setup ex_engine ex_state)))) \<and>
   Join 0 \<in> set (take 2 (trace (final (filters_setup ex_engine ex_state))))"
proof -
  let ?tr = "trace (final (filters_setup ex_engine ex_state))"
  have h: "need_filters_reinit ex_state" by (simp add: ex_state_def)
  have e: "?tr = drop (length (trace ex_state)) ?tr" by (simp add: ex_state_def)
  have m: "mutates_shared (?tr ! 2)" by (simp add: ex_run_trace)
  have l: "2 < length ?tr" by (simp add: ex_run_trace)
  have j: "joinable (video_sink_threads ex_state ! 0)"
    "0 < length (video_sink_threads ex_state)" by (simp_all add: ex_state_def)
  from rebuild_joins_before_teardown [OF h e] l m j h show ?thesis by blast
qed

subsection \<open>Claim C10: a rebuild on an empty node set\<close>

text \<open>
  Claim C10. When the rebuild flag is not set, \<open>filters_setup\<close> returns 0 and changes
  nothing. When it is set and there is no node, \<open>filters_setup\<close> joins every joinable
  producer thread, empties the thread vector, clears the flag and returns 0; the engine
  instance is not freed, the graph dump and the mutex vector are untouched, and the sink
  vector is not cleared: it keeps its entries, each as its producer left it on exit.
\<close>

theorem filters_setup_empty_nodes:
  "(\<not> need_filters_reinit s \<longrightarrow> filters_setup eng s = Return 0 s) \<and>
   (need_filters_reinit s \<and> filter_nodes s = [] \<longrightarrow>
      (\<exists>s'. filters_setup eng s = Return 0 s' \<and>
         trace s' = trace s @ join_from 0 (video_sink_threads s) @ [ClearThreads] \<and>
         video_sink_threads s' = [] \<and>
         \<not> need_filters_reinit s' \<and>
         filter_graph s' = filter_graph s \<and>
         graphdump_text s' = graphdump_text s \<and>
         mutexes s' = mutexes s \<and>
         buffer_sinks s' = join_sinks (video_sink_threads s) (buffer_sinks s) \<and>
         length (buffer_sinks s') = length (buffer_sinks s)))"
  by (simp add: filters_setup_def join_all_def Let_def length_join_sinks)

theorem filters_setup_empty_nodes_witness:
  "need_filters_reinit (ex_state\<lparr>filter_nodes := []\<rparr>) \<and>
   filter_nodes (ex_state\<lparr>filter_nodes := []\<rparr>) = [] \<and>
   code (filters_setup ex_engine (ex_state\<lparr>filter_nodes := []\<rparr>)) = 0 \<and>
   length (buffer_sinks (final (filters_setup ex_engine (ex_state\<lparr>filter_nodes := []\<rparr>)))) = 1 \<and>
   graphdump_text (final (filters_setup ex_engine (ex_state\<lparr>filter_nodes := []\<rparr>))) = Some ''old dump'' \<and>
   trace (final (filters_setup ex_engine (ex_state\<lparr>filter_nodes := []\<rparr>))) = [Join 0, ClearThreads] \<and>
   \<not> need_filters_reinit (ex_state\<lparr>need_filters_reinit := False\<rparr>) \<and>
   filters_setup ex_engine (ex_state\<lparr>need_filters_reinit := False\<rparr>)
     = Return 0 (ex_state\<lparr>need_filters_reinit := False\<rparr>)"
proof -
  let ?s = "ex_state\<lparr>filter_nodes := []\<rparr>"
  let ?q = "ex_state\<lparr>need_filters_reinit := False\<rparr>"
  have h: "need_filters_reinit ?s \<and> filter_nodes ?s = []" by (simp add: ex_state_def)
  have g: "\<not> need_filters_reinit ?q" by simp
  from filters_setup_empty_nodes [of ?s ex_engine] h
  obtain s' where s': "filters_setup ex_engine ?s = Return 0 s'"
    "trace s' = trace ?s @ join_from 0 (video_sink_threads ?s) @ [ClearThreads]"
    "graphdump_text s' = graphdump_text ?s"
    "length (buffer_sinks s') = length (buffer_sinks ?s)" by blast
  have "trace s' = [Join 0, ClearThreads]" using s'(2) by (simp add: ex_state_def)
  moreover have "graphdump_text s' = Some ''old dump''" using s'(3) by (simp add: ex_state_def)
  moreover have "length (buffer_sinks s') = 1" using s'(4) by (simp add: ex_state_def)
  moreover have "filters_setup ex_engine ?q = Return 0 ?q"
    using filters_setup_empty_nodes [of ?q ex_engine] g by blast
  ultimately show ?thesis using h g s'(1) by simp
qed

subsection \<open>Claim C2: the outputs after a rebuild\<close>

lemma spawn_workers_post:
  "spawn_workers eng r s = Return c s' \<Longrightarrow>
     (r < 0 \<longrightarrow> c = r \<and> s' = s) \<and>
     (0 \<le> r \<longrightarrow> c = 0 \<and> length (buffer_sinks s') = length (buffer_sinks s)
         \<and> length (mutexes s') = length (buffer_sinks s)
         \<and> video_sink_threads s' = map Worker [0..<length (buffer_sinks s)]
         \<and> filter_nodes s' = filter_nodes s)"
  unfolding spawn_workers_def by (auto simp: Let_def split: if_splits)

lemma spawn_workers_Return: "\<exists>c s'. spawn_workers eng r s = Return c s'"
  unfolding spawn_workers_def by (simp add: Let_def)

text \<open>
  Claim C2 says that a rebuild that fails leaves no Output. It does not: the error path
  returns the code at once, and the sinks pushed by the node loop before the failing step
  stay in \<open>buffer_sinks\<close>. In the first run the second node fails to initialise after the
  first, a \<open>buffersink\<close>, has been given its sink. In the second run the link names a slot of
  a deleted node: the range check of line 274 ends the rebuild with \<open>AVERROR(EINVAL)\<close>, and
  the sink of the \<open>buffersink\<close> node stays as well.
\<close>

theorem filters_setup_error_keeps_sinks:
  "need_filters_reinit ex_state \<and> links_in_table ex_state \<and> nodes_probed ex_state \<and>
   filters_setup ex_failing_engine ex_state
     = Return (- 22) (final (filters_setup ex_failing_engine ex_state)) \<and>
   length (buffer_sinks (final (filters_setup ex_failing_engine ex_state))) = 1 \<and>
   video_sink_threads (final (filters_setup ex_failing_engine ex_state)) = [] \<and>
   need_filters_reinit ex_stale \<and>
   filters_setup ex_engine ex_stale = Return (- 22) (final (filters_setup ex_engine ex_stale)) \<and>
   length (buffer_sinks (final (filters_setup ex_engine ex_stale))) = 1"
  by (simp add: filters_setup_def join_all_def Let_def ex_state_def ex_engine_def ex_stale_def
      ex_failing_engine_def links_in_table_def nodes_probed_def AVERROR_def EINVAL_def
      build_graph_def setup_node_def setup_link_def config_graph_def spawn_workers_def
      ex_node_def ex_buffersink_def ex_testsrc_def new_context_def new_sink_def
      upt_rec [of 0] upt_rec [of 1] upt_rec [of 2])

text \<open>
  Claim C2, amended. A rebuild on a node set that is not empty, where every link names two
  slots of the slot table and every node has its probe, returns. Either it returns 0, and
  then the number of Outputs is the number of nodes whose filter is named \<open>buffersink\<close>,
  with one mutex and one joinable producer thread for each. Or it returns a negative code,
  and then there is no producer thread and no mutex, \<open>buffer_sinks\<close> holds the sinks that
  the node loop has pushed before the failing step, as many as \<open>pushed_sinks\<close> counts (none
  when the engine instance could not be allocated), and the consumer of the main loop
  displays no frame.
\<close>

theorem filters_setup_outputs:
  assumes "need_filters_reinit s" and "filter_nodes s \<noteq> []"
    and "links_in_table s" and "nodes_probed s"
  shows "\<exists>ret s'. filters_setup eng s = Return ret s' \<and>
      ((ret = 0 \<and> length (buffer_sinks s') = length (filter is_buffersink (filter_nodes s))
            \<and> length (mutexes s') = length (buffer_sinks s')
            \<and> video_sink_threads s' = map Worker [0..<length (buffer_sinks s')])
       \<or> (ret < 0 \<and> video_sink_threads s' = [] \<and> mutexes s' = []
            \<and> length (buffer_sinks s') =
                 (if graph_alloc_ok eng
                  then pushed_sinks eng (filter_nodes s) [0..<length (filter_nodes s)] else 0)
            \<and> snd (consume_frames ks prs s') = []))"
proof -
  define s5 where "s5 = s\<lparr>video_sink_threads := [], need_filters_reinit := False,
      buffer_sinks := [], mutexes := [], graphdump_text := None,
      filter_graph := (if graph_alloc_ok eng then Some \<lparr>filters = []\<rparr> else None),
      trace := trace s @ join_from 0 (video_sink_threads s) @ [ClearThreads]
                 @ [ClearSinks, ClearMutexes, FreeDump, GraphFree, GraphAlloc]\<rparr>"
  have fs: "filters_setup eng s =
     (if filter_graph s5 = None then Return (AVERROR ENOMEM) s5
      else case build_graph eng s5 of
             Undefined s6 \<Rightarrow> Crash s6
           | Abort ret s6 \<Rightarrow> spawn_workers eng ret s6
           | Continue s6 \<Rightarrow> spawn_workers eng (graph_config eng) s6)"
    using assms(1,2) by (simp add: filters_setup_def join_all_def Let_def s5_def)
  have s5: "video_sink_threads s5 = []" "mutexes s5 = []" "buffer_sinks s5 = []"
    "filter_nodes s5 = filter_nodes s" by (simp_all add: s5_def)
  have wf: "links_in_table s5" "nodes_probed s5"
    using assms(3,4) by (simp_all add: s5_def links_in_table_def nodes_probed_def)
  have ga: "filter_graph s5 = None \<longleftrightarrow> \<not> graph_alloc_ok eng" by (simp add: s5_def)
  note bf = build_graph_frame [where eng=eng and s=s5]
  show ?thesis
  proof (cases "filter_graph s5 = None")
    case True
    then have "filters_setup eng s = Return (AVERROR ENOMEM) s5" using fs by simp
    then show ?thesis using s5 True ga
      by (simp add: AVERROR_def ENOMEM_def consume_frames_def)
  next
    case ng: False
    show ?thesis
    proof (cases "build_graph eng s5")
      case (Undefined s6)
      then show ?thesis using build_graph_defined [OF wf] by blast
    next
      case (Abort r s6)
      then have sp: "filters_setup eng s = spawn_workers eng r s6" using fs ng by simp
      have r: "r < 0" "length (buffer_sinks s6) =
          pushed_sinks eng (filter_nodes s) [0..<length (filter_nodes s)]"
        using build_graph_pushed [OF Abort] s5 by simp_all
      have ret: "filters_setup eng s = Return r s6"
        using sp r(1) by (simp add: spawn_workers_def)
      have th: "video_sink_threads s6 = []" "mutexes s6 = []" using bf Abort s5 by simp_all
      have "snd (consume_frames ks prs s6) = []"
        using th by (cases "buffer_sinks s6") (simp_all add: consume_frames_def)
      then show ?thesis using ret r th ng ga by simp
    next
      case (Continue s6)
      then have sp: "filters_setup eng s = spawn_workers eng (graph_config eng) s6"
        using fs ng by simp
      have r: "0 \<le> graph_config eng"
        "length (buffer_sinks s6) = length (filter is_buffersink (filter_nodes s))"
        using build_graph_Continue [OF Continue] s5 by simp_all
      obtain c s' where cs: "spawn_workers eng (graph_config eng) s6 = Return c s'"
        using spawn_workers_Return by blast
      show ?thesis using spawn_workers_post [OF cs] r sp cs by simp
    qed
  qed
qed

lemma ex_ok_run:
  "filters_setup ex_engine ex_state = Return 0 (final (filters_setup ex_engine ex_state))"
  by (simp add: filters_setup_def join_all_def Let_def ex_state_def ex_engine_def
      build_graph_def setup_node_def setup_link_def config_graph_def spawn_workers_def
      ex_node_def ex_buffersink_def ex_testsrc_def new_context_def new_sink_def
      upt_rec [of 0] upt_rec [of 1] upt_rec [of 2])

theorem filters_setup_outputs_witness:
  "need_filters_reinit ex_state \<and> filter_nodes ex_state \<noteq> [] \<and>
   links_in_table ex_state \<and> nodes_probed ex_state \<and>
   filters_setup ex_engine ex_state = Return 0 (final (filters_setup ex_engine ex_state)) \<and>
   length (buffer_sinks (final (filters_setup ex_engine ex_state))) = 1 \<and>
   length (mutexes (final (filters_setup ex_engine ex_state))) = 1 \<and>
   video_sink_threads (final (filters_setup ex_engine ex_state)) = [Worker 0] \<and>
   code (filters_setup ex_failing_engine ex_state) < 0 \<and>
   length (buffer_sinks (final (filters_setup ex_failing_engine ex_state))) = 1 \<and>
   mutexes (final (filters_setup ex_failing_engine ex_state)) = []"
proof -
  let ?s' = "final (filters_setup ex_engine ex_state)"
  let ?f' = "final (filters_setup ex_failing_engine ex_state)"
  have h: "need_filters_reinit ex_state" "filter_nodes ex_state \<noteq> []"
    "links_in_table ex_state" "nodes_probed ex_state"
    by (simp_all add: ex_state_def links_in_table_def nodes_probed_def ex_node_def)
  have n: "length (filter is_buffersink (filter_nodes ex_state)) = 1"
    by (simp add: ex_state_def is_buffersink_def ex_node_def ex_buffersink_def ex_testsrc_def)
  have p: "graph_alloc_ok ex_failing_engine"
    "pushed_sinks ex_failing_engine (filter_nodes ex_state) [0..<length (filter_nodes ex_state)] = 1"
    by (simp_all add: ex_state_def ex_failing_engine_def ex_engine_def sink_pushed_def
        node_passes_def is_buffersink_def ex_node_def ex_buffersink_def ex_testsrc_def
        upt_rec [of 0] upt_rec [of 1] upt_rec [of 2])
  have c: "code (filters_setup ex_failing_engine ex_state) \<noteq> 0"
    by (simp add: filters_setup_def join_all_def Let_def ex_state_def ex_engine_def
      ex_failing_engine_def
      build_graph_def setup_node_def setup_link_def config_graph_def spawn_workers_def
      ex_node_def ex_buffersink_def ex_testsrc_def new_context_def new_sink_def
      upt_rec [of 0] upt_rec [of 1] upt_rec [of 2])
  from filters_setup_outputs [OF h, where eng=ex_engine and ks="\<lambda>i. ex_keys_none"
      and prs="\<lambda>i. (AtOuterTest, [])"]
  obtain ret s' where r: "filters_setup ex_engine ex_state = Return ret s'"
    and d: "(ret = 0 \<and> length (buffer_sinks s') = length (filter is_buffersink (filter_nodes ex_state))
            \<and> length (mutexes s') = length (buffer_sinks s')
            \<and> video_sink_threads s' = map Worker [0..<length (buffer_sinks s')])
       \<or> (ret < 0 \<and> video_sink_threads s' = [] \<and> mutexes s' = []
            \<and> length (buffer_sinks s') =
                 (if graph_alloc_ok ex_engine
                  then pushed_sinks ex_engine (filter_nodes ex_state)
                         [0..<length (filter_nodes ex_state)] else 0)
            \<and> snd (consume_frames (\<lambda>i. ex_keys_none) (\<lambda>i. (AtOuterTest, [])) s') = [])"
    by blast
  have e: "ret = 0" "s' = ?s'" using r ex_ok_run by simp_all
  have 1: "length (buffer_sinks ?s') = 1 \<and> length (mutexes ?s') = 1
        \<and> video_sink_threads ?s' = map Worker [0..<1]"
    using d n unfolding e by simp
  from filters_setup_outputs [OF h, where eng=ex_failing_engine and ks="\<lambda>i. ex_keys_none"
      and prs="\<lambda>i. (AtOuterTest, [])"]
  obtain ret2 s2 where r2: "filters_setup ex_failing_engine ex_state = Return ret2 s2"
    and d2: "(ret2 = 0 \<and> length (buffer_sinks s2) = length (filter is_buffersink (filter_nodes ex_state))
            \<and> length (mutexes s2) = length (buffer_sinks s2)
            \<and> video_sink_threads s2 = map Worker [0..<length (buffer_sinks s2)])
       \<or> (ret2 < 0 \<and> video_sink_threads s2 = [] \<and> mutexes s2 = []
            \<and> length (buffer_sinks s2) =
                 (if graph_alloc_ok ex_failing_engine
                  then pushed_sinks ex_failing_engine (filter_nodes ex_state)
                         [0..<length (filter_nodes ex_state)] else 0)
            \<and> snd (consume_frames (\<lambda>i. ex_keys_none) (\<lambda>i. (AtOuterTest, [])) s2) = [])"
    by blast
  have e2: "ret2 \<noteq> 0" "code (filters_setup ex_failing_engine ex_state) = ret2" "?f' = s2"
    using r2 c by simp_all
  have 2: "code (filters_setup ex_failing_engine ex_state) < 0 \<and> length (buffer_sinks ?f') = 1
        \<and> mutexes ?f' = []"
    using d2 p e2(1) unfolding e2(2,3) by simp
  show ?thesis using h ex_ok_run 1 2 by simp
qed

section \<open>Properties of \<open>worker_thread\<close>\<close>

subsection \<open>A producer ends when a rebuild is requested\<close>

text \<open>While \<open>need_filters_reinit\<close> is set, a producer reaches its end within five steps from
  any program point, whatever the engine answers to its pulls: the \<open>join\<close> of
  \<open>filters_setup\<close>, which is called with the flag set, returns.\<close>

lemma measure_speed_fields:
  "sink_ctx (measure_speed e b) = sink_ctx b"
  "uploaded_frame (measure_speed e b) = uploaded_frame b"
  "a_frame (measure_speed e b) = a_frame b"
  "b_frame (measure_speed e b) = b_frame b"
  "measure_speed e b = b\<lparr>speed := speed (measure_speed e b)\<rparr>"
  by (simp_all add: measure_speed_def)

lemma worker_run_Finished: "worker_run es (Finished, x) = (Finished, x)"
  by (induction es) simp_all

lemma worker_step_flagged:
  assumes "reinit e"
  shows "worker_step e (AtOuterTest, b) = (AtExit, b)"
    and "worker_step e (AtExit, b) = (Finished, worker_exit b)"
    and "fst (worker_step e (AtPull, b)) = AtOuterTest \<or> fst (worker_step e (AtPull, b)) = AtInnerTest"
    and "fst (worker_step e (AtInnerTest, b)) = AtOuterTest \<or> fst (worker_step e (AtInnerTest, b)) = AtPull"
  using assms by (auto simp: Let_def)

lemma worker_ends_from_outer:
  assumes "reinit e1" "reinit e2"
  shows "fst (worker_run (e1 # e2 # es) (AtOuterTest, b)) = Finished"
  using assms by (simp add: worker_run_Finished)

lemma worker_ends_from_inner_ready:
  assumes "reinit e1" "reinit e2" "reinit e3" "uploaded_frame b"
  shows "fst (worker_run (e1 # e2 # e3 # es) (AtInnerTest, b)) = Finished"
  using assms by (simp add: worker_run_Finished)

lemma worker_ends_from_pull:
  assumes "reinit e1" "reinit e2" "reinit e3" "reinit e4"
  shows "fst (worker_run (e1 # e2 # e3 # e4 # es) (AtPull, b)) = Finished"
proof (cases "pull_ret e1 < 0 \<and> pull_ret e1 \<noteq> AVERROR EAGAIN")
  case True
  then obtain b1 where "worker_step e1 (AtPull, b) = (AtOuterTest, b1)" by (auto simp: Let_def)
  then have "worker_run (e1 # e2 # e3 # e4 # es) (AtPull, b)
      = worker_run (e2 # e3 # e4 # es) (AtOuterTest, b1)" by (simp only: worker_run.simps)
  then show ?thesis
    using worker_ends_from_outer [OF assms(2,3), where es="e4 # es" and b=b1] by (simp only:)
next
  case False
  then obtain b1 where s: "worker_step e1 (AtPull, b) = (AtInnerTest, b1)" "uploaded_frame b1"
    by (auto simp: Let_def)
  then have "worker_run (e1 # e2 # e3 # e4 # es) (AtPull, b)
      = worker_run (e2 # e3 # e4 # es) (AtInnerTest, b1)" by (simp only: worker_run.simps)
  then show ?thesis
    using worker_ends_from_inner_ready [OF assms(2,3,4) s(2), where es=es] by (simp only:)
qed

lemma worker_ends_when_flagged:
  assumes "reinit e1" "reinit e2" "reinit e3" "reinit e4" "reinit e5"
  shows "fst (worker_run (e1 # e2 # e3 # e4 # e5 # es) (pc, b)) = Finished"
proof (cases pc)
  case AtOuterTest
  then show ?thesis
    using worker_ends_from_outer [OF assms(1,2), where es="e3 # e4 # e5 # es" and b=b]
    by (simp only:)
next
  case AtInnerTest
  show ?thesis
  proof (cases "uploaded_frame b")
    case True
    then show ?thesis
      using AtInnerTest
        worker_ends_from_inner_ready [OF assms(1,2,3) True, where es="e4 # e5 # es"]
      by (simp only:)
  next
    case False
    then have "worker_step e1 (AtInnerTest, b)
        = (AtPull, b\<lparr>a_frame := map_option (\<lambda>f. Unref) (a_frame b)\<rparr>)" by simp
    then have "worker_run (e1 # e2 # e3 # e4 # e5 # es) (AtInnerTest, b)
        = worker_run (e2 # e3 # e4 # e5 # es)
            (AtPull, b\<lparr>a_frame := map_option (\<lambda>f. Unref) (a_frame b)\<rparr>)"
      by (simp only: worker_run.simps)
    then show ?thesis
      using AtInnerTest worker_ends_from_pull [OF assms(2,3,4,5), where es=es]
      by (simp only:)
  qed
next
  case AtPull
  then show ?thesis
    using worker_ends_from_pull [OF assms(1,2,3,4), where es="e5 # es" and b=b] by (simp only:)
next
  case AtExit
  then show ?thesis by (simp add: worker_run_Finished)
next
  case Finished
  then show ?thesis by (simp add: worker_run_Finished)
qed

subsection \<open>Claim C3: a pull that fails\<close>

text \<open>
  Claim C3 says that a pull failing with an error other than \<open>EAGAIN\<close> ends the producer
  loop. The \<open>break\<close> of line 137 leaves the inner loop only. With no rebuild requested, a
  producer whose pull fails with \<open>AVERROR_EOF\<close> is back at the pull three steps later, with
  its buffers not released; in four steps it has called the engine twice.
\<close>

theorem worker_pulls_again_after_error:
  "pull_ret ex_eof < 0 \<and> pull_ret ex_eof \<noteq> AVERROR EAGAIN \<and>
   worker_step ex_eof (AtPull, ex_sink)
     = (AtOuterTest, ex_sink\<lparr>speed := Measured (25, 1) 40\<rparr>) \<and>
   worker_run [ex_eof, ex_eof, ex_eof] (AtPull, ex_sink)
     = (AtPull, ex_sink\<lparr>speed := Measured (25, 1) 40\<rparr>) \<and>
   pulls [ex_eof, ex_eof, ex_eof, ex_eof] (AtPull, ex_sink) = 2"
  by (simp add: ex_eof_def ex_sink_def AVERROR_EOF_def AVERROR_def EAGAIN_def new_sink_def
      measure_speed_def)

text \<open>
  Claim C3, amended. A pull that fails with an error other than \<open>EAGAIN\<close> ends the inner
  pull loop without setting the ready flag, and the producer is back at the test of the
  outer loop; its sink is as before the pull but for the speed measured for the pull
  (lines 133--134). There it leaves the loop and releases its buffers exactly when
  \<open>sink->ctx\<close> is null or \<open>need_filters_reinit\<close> is set (then the failed pull was its last);
  otherwise, the ready flag being still false, it pulls again.
\<close>

theorem worker_pull_error:
  assumes "pull_ret e < 0" and "pull_ret e \<noteq> AVERROR EAGAIN"
  shows "worker_step e (AtPull, b) = (AtOuterTest, measure_speed e b) \<and>
         measure_speed e b = b\<lparr>speed := speed (measure_speed e b)\<rparr> \<and>
         worker_step e1 (AtOuterTest, measure_speed e b) =
           (if sink_ctx b = None \<or> reinit e1 then (AtExit, measure_speed e b)
            else (AtInnerTest, measure_speed e b)) \<and>
         (sink_ctx b = None \<or> reinit e1 \<longrightarrow>
            worker_run [e, e1, e2] (AtPull, b) = (Finished, worker_exit (measure_speed e b))
            \<and> pulls [e, e1, e2] (AtPull, b) = 1) \<and>
         (sink_ctx b \<noteq> None \<and> \<not> reinit e1 \<and> \<not> uploaded_frame b \<longrightarrow>
            fst (worker_run [e, e1, e2] (AtPull, b)) = AtPull
            \<and> \<not> uploaded_frame (snd (worker_run [e, e1, e2] (AtPull, b)))
            \<and> pulls [e, e1, e2, e3] (AtPull, b) = 2)"
proof -
  have 1: "worker_step e (AtPull, b) = (AtOuterTest, measure_speed e b)"
    using assms by (simp add: Let_def)
  have 2: "measure_speed e b = b\<lparr>speed := speed (measure_speed e b)\<rparr>"
    by (rule measure_speed_fields(5))
  show ?thesis
    using 1 2 by (auto simp: measure_speed_fields(1,2))
qed

theorem worker_pull_error_witness:
  "pull_ret ex_eof < 0 \<and> pull_ret ex_eof \<noteq> AVERROR EAGAIN \<and>
   sink_ctx ex_sink \<noteq> None \<and> \<not> reinit ex_eof \<and> \<not> uploaded_frame ex_sink \<and>
   reinit (ex_eof\<lparr>reinit := True\<rparr>) \<and>
   fst (worker_run [ex_eof, ex_eof, ex_eof] (AtPull, ex_sink)) = AtPull \<and>
   worker_run [ex_eof, ex_eof\<lparr>reinit := True\<rparr>, ex_eof] (AtPull, ex_sink)
     = (Finished, worker_exit (ex_sink\<lparr>speed := Measured (25, 1) 40\<rparr>))"
proof -
  have h: "pull_ret ex_eof < 0" "pull_ret ex_eof \<noteq> AVERROR EAGAIN"
    by (simp_all add: ex_eof_def AVERROR_EOF_def AVERROR_def EAGAIN_def)
  have g: "sink_ctx ex_sink \<noteq> None" "\<not> reinit ex_eof" "\<not> uploaded_frame ex_sink"
    by (simp_all add: ex_eof_def ex_sink_def new_sink_def)
  have r: "reinit (ex_eof\<lparr>reinit := True\<rparr>)" by simp
  have m: "measure_speed ex_eof ex_sink = ex_sink\<lparr>speed := Measured (25, 1) 40\<rparr>"
    by (simp add: measure_speed_def ex_eof_def ex_sink_def)
  from worker_pull_error [OF h, of ex_sink ex_eof ex_eof] g
  have 1: "fst (worker_run [ex_eof, ex_eof, ex_eof] (AtPull, ex_sink)) = AtPull" by blast
  from worker_pull_error [OF h, of ex_sink "ex_eof\<lparr>reinit := True\<rparr>" ex_eof] r
  have 2: "worker_run [ex_eof, ex_eof\<lparr>reinit := True\<rparr>, ex_eof] (AtPull, ex_sink)
     = (Finished, worker_exit (measure_speed ex_eof ex_sink))" by blast
  show ?thesis using h g r 1 2 unfolding m by blast
qed

section \<open>Properties of the consumer\<close>

subsection \<open>Claim C4: which buffer is displayed, and when the buffers are swapped\<close>

lemma handle_keys_frames:
  "i < length (buffer_sinks s) \<Longrightarrow>
   a_frame (buffer_sinks (handle_keys k i s) ! i) = a_frame (buffer_sinks s ! i) \<and>
   b_frame (buffer_sinks (handle_keys k i s) ! i) = b_frame (buffer_sinks s ! i) \<and>
   uploaded_frame (buffer_sinks (handle_keys k i s) ! i) = uploaded_frame (buffer_sinks s ! i) \<and>
   sink_ctx (buffer_sinks (handle_keys k i s) ! i) = sink_ctx (buffer_sinks s ! i) \<and>
   length (buffer_sinks (handle_keys k i s)) = length (buffer_sinks s)"
  by (simp add: handle_keys_def Let_def)

lemma draw_frame_frames:
  "i < length (buffer_sinks s) \<Longrightarrow>
   a_frame (buffer_sinks (fst (draw_frame k f i s)) ! i) = a_frame (buffer_sinks s ! i) \<and>
   b_frame (buffer_sinks (fst (draw_frame k f i s)) ! i) = b_frame (buffer_sinks s ! i) \<and>
   uploaded_frame (buffer_sinks (fst (draw_frame k f i s)) ! i) = uploaded_frame (buffer_sinks s ! i) \<and>
   sink_ctx (buffer_sinks (fst (draw_frame k f i s)) ! i) = sink_ctx (buffer_sinks s ! i) \<and>
   length (buffer_sinks (fst (draw_frame k f i s))) = length (buffer_sinks s)"
  by (simp add: draw_frame_def Let_def handle_keys_frames)

lemma draw_frame_shown:
  "loaded (snd (draw_frame k f i s)) = (if show_buffersink_window s then f else None) \<and>
   shown (snd (draw_frame k f i s))
     = (if show_buffersink_window s \<and> begin_visible k then f else None)"
  by (cases f) (simp_all add: draw_frame_def Let_def)

text \<open>While the ready flag is set and no rebuild is requested, the producer only polls.\<close>

lemma worker_step_idle:
  assumes "uploaded_frame b" "sink_ctx b \<noteq> None" "\<not> reinit e" "pc = AtOuterTest \<or> pc = AtInnerTest"
  shows "snd (worker_step e (pc, b)) = b \<and>
         (fst (worker_step e (pc, b)) = AtOuterTest \<or> fst (worker_step e (pc, b)) = AtInnerTest)"
  using assms by auto

lemma worker_run_idle:
  assumes "uploaded_frame b" "sink_ctx b \<noteq> None" "\<forall>e\<in>set es. \<not> reinit e"
    "pc = AtOuterTest \<or> pc = AtInnerTest"
  shows "snd (worker_run es (pc, b)) = b"
  using assms
proof (induction es arbitrary: pc)
  case Nil
  then show ?case by simp
next
  case (Cons e es)
  have st: "snd (worker_step e (pc, b)) = b \<and>
         (fst (worker_step e (pc, b)) = AtOuterTest \<or> fst (worker_step e (pc, b)) = AtInnerTest)"
    using worker_step_idle [of b e pc] Cons.prems by simp
  then have "worker_step e (pc, b) = (fst (worker_step e (pc, b)), b)"
    by (metis prod.collapse)
  then have "worker_run (e # es) (pc, b) = worker_run es (fst (worker_step e (pc, b)), b)"
    by simp
  then show ?case using Cons.IH [of "fst (worker_step e (pc, b))"] Cons.prems st by simp
qed

text \<open>
  Claim C4 ends: a ready frame is displayed before any swap discards it, in both paused
  and single-step modes. The consumer reads the ready flag twice, once to pick the buffer
  and once to swap, and the mutex is free in between. In the first run below (paused,
  single step) the consumer picks and shows the back buffer, picture 6; the producer then
  publishes picture 8, and the second critical section finds the flag set and swaps
  picture 8 to the back buffer. The producer pulls picture 9 before the next UI frame,
  where picture 9 is the frame shown; the next swap makes picture 8 the front buffer, and
  the producer's next pull releases it. Picture 8 was ready and was never displayed.

  The claim also says that the consumer displays the buffer it picks. \<open>draw_frame\<close> returns
  at once while the sink windows are closed: in the second run (not paused, windows
  closed) the ready picture 7 is picked, nothing is loaded or shown, and the buffers are
  swapped.
\<close>

lemmas ex_race_defs = render_sink_def draw_frame_def handle_keys_def producer_runs_def
      swap_section_def swap_frames_def pick_frame_def Let_def ex_wait_def ex_idle_def
      measure_speed_def
      ex_state_def ex_sink_def new_sink_def ex_keys_step_def ex_keys_none_def ex_poll_def

lemma ex_race1_sink:
  "buffer_sinks ex_race1 = [ex_sink\<lparr>a_frame := Some (Picture 6), b_frame := Some (Picture 8),
                                    speed := Measured (25, 1) 40, window_pos := (100, 100)\<rparr>]
   \<and> paused ex_race1 \<and> show_buffersink_window ex_race1"
  by (simp add: ex_race1_def ex_race_defs)

lemma ex_race2_sink:
  "buffer_sinks ex_race2 = [ex_sink\<lparr>a_frame := Some (Picture 9), b_frame := Some (Picture 8),
                                    speed := Measured (25, 1) 40, uploaded_frame := True,
                                    window_pos := (100, 100)\<rparr>]
   \<and> paused ex_race2 \<and> show_buffersink_window ex_race2"
  using ex_race1_sink
  by (simp add: ex_race2_def producer_runs_def ex_sink_def new_sink_def ex_poll_def
      measure_speed_def)

theorem ready_frame_dropped:
  "fst (snd (render_sink ex_keys_step (AtPull, [ex_poll]) 0 ex_wait)) = Some (Picture 6) \<and>
   shown (snd (snd (render_sink ex_keys_step (AtPull, [ex_poll]) 0 ex_wait)))
     = Some (Picture 6) \<and>
   a_frame (buffer_sinks (producer_runs (AtPull, [ex_poll]) 0
      (fst (draw_frame ex_keys_step (Some (Picture 6)) 0 ex_wait))) ! 0) = Some (Picture 8) \<and>
   uploaded_frame (buffer_sinks (producer_runs (AtPull, [ex_poll]) 0
      (fst (draw_frame ex_keys_step (Some (Picture 6)) 0 ex_wait))) ! 0) \<and>
   b_frame (buffer_sinks ex_race1 ! 0) = Some (Picture 8) \<and>
   \<not> uploaded_frame (buffer_sinks ex_race1 ! 0) \<and>
   a_frame (buffer_sinks ex_race2 ! 0) = Some (Picture 9) \<and>
   uploaded_frame (buffer_sinks ex_race2 ! 0) \<and>
   fst (snd (render_sink ex_keys_step (AtInnerTest, []) 0 ex_race2)) = Some (Picture 9) \<and>
   shown (snd (snd (render_sink ex_keys_step (AtInnerTest, []) 0 ex_race2)))
     = Some (Picture 9) \<and>
   a_frame (buffer_sinks ex_race3 ! 0) = Some (Picture 8) \<and>
   b_frame (buffer_sinks ex_race3 ! 0) = Some (Picture 9) \<and>
   a_frame (buffer_sinks ex_race4 ! 0) = Some Unref \<and>
   b_frame (buffer_sinks ex_race4 ! 0) = Some (Picture 9) \<and>
   uploaded_frame (buffer_sinks ex_closed ! 0) \<and>
   a_frame (buffer_sinks ex_closed ! 0) = Some (Picture 7) \<and>
   render_sink ex_keys_none (AtInnerTest, []) 0 ex_closed
     = (ex_closed\<lparr>buffer_sinks := [ex_old_sink\<lparr>a_frame := Some (Picture 6),
                        b_frame := Some (Picture 7), uploaded_frame := False\<rparr>]\<rparr>,
        Some (Picture 7), \<lparr>loaded = None, shown = None\<rparr>)"
proof -
  have 1: "fst (snd (render_sink ex_keys_step (AtPull, [ex_poll]) 0 ex_wait)) = Some (Picture 6)
    \<and> shown (snd (snd (render_sink ex_keys_step (AtPull, [ex_poll]) 0 ex_wait)))
         = Some (Picture 6)"
    by (simp add: ex_race_defs)
  have 2: "a_frame (buffer_sinks (producer_runs (AtPull, [ex_poll]) 0
      (fst (draw_frame ex_keys_step (Some (Picture 6)) 0 ex_wait))) ! 0) = Some (Picture 8) \<and>
   uploaded_frame (buffer_sinks (producer_runs (AtPull, [ex_poll]) 0
      (fst (draw_frame ex_keys_step (Some (Picture 6)) 0 ex_wait))) ! 0)"
    by (simp add: ex_race_defs)
  have 3: "fst (snd (render_sink ex_keys_step (AtInnerTest, []) 0 ex_race2)) = Some (Picture 9)
    \<and> shown (snd (snd (render_sink ex_keys_step (AtInnerTest, []) 0 ex_race2)))
         = Some (Picture 9)"
    using ex_race2_sink
    by (simp add: render_sink_def pick_frame_def Let_def split_beta draw_frame_shown
        ex_keys_step_def ex_keys_none_def)
  have 4: "buffer_sinks ex_race3 =
     [ex_sink\<lparr>a_frame := Some (Picture 8), b_frame := Some (Picture 9),
              speed := Measured (25, 1) 40, window_pos := (100, 100)\<rparr>]"
    using ex_race2_sink
    by (simp add: ex_race3_def render_sink_def draw_frame_def handle_keys_def
        producer_runs_def swap_section_def swap_frames_def pick_frame_def Let_def
        ex_keys_step_def ex_keys_none_def ex_sink_def new_sink_def)
  have 5: "buffer_sinks ex_race4 = [ex_sink\<lparr>a_frame := Some Unref, b_frame := Some (Picture 9),
              speed := Measured (25, 1) 40, window_pos := (100, 100)\<rparr>]"
    using 4 by (simp add: ex_race4_def producer_runs_def ex_sink_def new_sink_def ex_poll_def
        measure_speed_def)
  have 6: "uploaded_frame (buffer_sinks ex_closed ! 0) \<and>
   a_frame (buffer_sinks ex_closed ! 0) = Some (Picture 7) \<and>
   render_sink ex_keys_none (AtInnerTest, []) 0 ex_closed
     = (ex_closed\<lparr>buffer_sinks := [ex_old_sink\<lparr>a_frame := Some (Picture 6),
                        b_frame := Some (Picture 7), uploaded_frame := False\<rparr>]\<rparr>,
        Some (Picture 7), \<lparr>loaded = None, shown = None\<rparr>)"
    by (simp add: render_sink_def draw_frame_def producer_runs_def swap_section_def
        swap_frames_def pick_frame_def Let_def ex_closed_def ex_state_def ex_old_sink_def
        new_sink_def)
  show ?thesis using 1 2 3 4 5 6 ex_race1_sink ex_race2_sink by (simp add: ex_sink_def)
qed

text \<open>
  Claim C4, amended. In the body of the consumer loop for the sink \<open>i\<close>, with \<open>b\<close> the sink
  as found in the first critical section, \<open>b2\<close> the sink as found in the second one and
  \<open>b'\<close> the sink as left: the frame picked and handed to \<open>draw_frame\<close> is the front buffer
  \<open>a_frame\<close> exactly when the ready flag of \<open>b\<close> is set and the back buffer otherwise;
  \<open>draw_frame\<close> loads it into the texture exactly when the sink windows are open, and shows
  it exactly when in addition the window of the sink is visible; the buffers are swapped
  and the flag is cleared exactly when the ready flag of \<open>b2\<close> is set and the preview is not
  paused or a single step was requested, and otherwise the sink is left as found.
  Consequently a frame that is ready when the consumer picks is the frame handed to
  \<open>draw_frame\<close>, it is the frame shown when the sink windows are open and the window is
  visible (and no frame is shown otherwise), the producer leaves it alone meanwhile, and
  after the body the sink still holds it: as back buffer when the buffers were swapped (not
  paused, or single step), as front buffer with the flag still set otherwise (paused).
\<close>

theorem consumer_display_and_swap:
  assumes "i < length (buffer_sinks s)"
    and "b = buffer_sinks s ! i"
    and "render_sink k pr i s = (s', picked, d)"
    and "b2 = buffer_sinks (producer_runs pr i (fst (draw_frame k (pick_frame b) i s))) ! i"
    and "b' = buffer_sinks s' ! i"
  shows "picked = (if uploaded_frame b then a_frame b else b_frame b) \<and>
         loaded d = (if show_buffersink_window s then picked else None) \<and>
         shown d = (if show_buffersink_window s \<and> begin_visible k then picked else None) \<and>
         (if uploaded_frame b2 \<and> (\<not> paused s' \<or> framestep s')
          then b' = b2\<lparr>b_frame := a_frame b2, a_frame := b_frame b2, uploaded_frame := False\<rparr>
          else b' = b2) \<and>
         (uploaded_frame b \<and> sink_ctx b \<noteq> None \<and> (\<forall>e\<in>set (snd pr). \<not> reinit e)
            \<and> (fst pr = AtOuterTest \<or> fst pr = AtInnerTest) \<longrightarrow>
            picked = a_frame b \<and>
            shown d = (if show_buffersink_window s \<and> begin_visible k then a_frame b else None) \<and>
            (if \<not> paused s' \<or> framestep s'
             then b_frame b' = a_frame b \<and> a_frame b' = b_frame b \<and> \<not> uploaded_frame b'
             else a_frame b' = a_frame b \<and> b_frame b' = b_frame b \<and> uploaded_frame b'))"
proof -
  obtain s1 sh where d: "draw_frame k (pick_frame b) i s = (s1, sh)"
    by (cases "draw_frame k (pick_frame b) i s")
  let ?s2 = "producer_runs pr i s1"
  have rs: "s' = swap_section i ?s2" "picked = pick_frame b" "d = sh"
    using assms(2,3) d by (simp_all add: render_sink_def Let_def)
  have len1: "length (buffer_sinks s1) = length (buffer_sinks s)"
    using draw_frame_frames [OF assms(1), of k "pick_frame b"] d by simp
  have len2: "i < length (buffer_sinks ?s2)" using len1 assms(1) by (simp add: producer_runs_def)
  have b2: "b2 = buffer_sinks ?s2 ! i" using assms(4) d by simp
  have flags: "paused s' = paused ?s2" "framestep s' = framestep ?s2"
    using rs(1) by (simp_all add: swap_section_def)
  have b': "b' = swap_frames (paused ?s2) (framestep ?s2) b2"
    using assms(5) rs(1) len2 b2 by (simp add: swap_section_def)
  have 1: "picked = (if uploaded_frame b then a_frame b else b_frame b)"
    using rs(2) by (simp add: pick_frame_def)
  have 2: "loaded d = (if show_buffersink_window s then picked else None)"
    "shown d = (if show_buffersink_window s \<and> begin_visible k then picked else None)"
    using rs(2,3) d draw_frame_shown [of k "pick_frame b" i s] by simp_all
  have 3: "if uploaded_frame b2 \<and> (\<not> paused s' \<or> framestep s')
          then b' = b2\<lparr>b_frame := a_frame b2, a_frame := b_frame b2, uploaded_frame := False\<rparr>
          else b' = b2"
    using b' flags by (auto simp: swap_frames_def)
  have 4: "picked = a_frame b \<and>
            shown d = (if show_buffersink_window s \<and> begin_visible k then a_frame b else None) \<and>
            (if \<not> paused s' \<or> framestep s'
             then b_frame b' = a_frame b \<and> a_frame b' = b_frame b \<and> \<not> uploaded_frame b'
             else a_frame b' = a_frame b \<and> b_frame b' = b_frame b \<and> uploaded_frame b')"
    if h: "uploaded_frame b" "sink_ctx b \<noteq> None" "\<forall>e\<in>set (snd pr). \<not> reinit e"
       "fst pr = AtOuterTest \<or> fst pr = AtInnerTest"
  proof -
    let ?b1 = "buffer_sinks s1 ! i"
    have b1: "a_frame ?b1 = a_frame b" "b_frame ?b1 = b_frame b" "uploaded_frame ?b1"
      "sink_ctx ?b1 \<noteq> None"
      using draw_frame_frames [OF assms(1), of k "pick_frame b"] d assms(2) h by simp_all
    have "snd (worker_run (snd pr) (fst pr, ?b1)) = ?b1"
      using worker_run_idle [OF b1(3,4) h(3,4)] .
    then have "b2 = ?b1" using b2 len1 assms(1) by (simp add: producer_runs_def)
    then show ?thesis using 1 2(2) 3 b1 h(1) by (auto split: if_splits)
  qed
  show ?thesis using 1 2 3 4 by blast
qed

lemma ex_render_step:
  "paused (fst (render_sink ex_keys_step (AtOuterTest, [ex_poll]) 0 ex_state)) \<and>
   framestep (fst (render_sink ex_keys_step (AtOuterTest, [ex_poll]) 0 ex_state)) \<and>
   paused (fst (render_sink ex_keys_none (AtOuterTest, [ex_poll]) 0 ex_state)) \<and>
   \<not> framestep (fst (render_sink ex_keys_none (AtOuterTest, [ex_poll]) 0 ex_state))"
  by (simp add: render_sink_def draw_frame_def handle_keys_def producer_runs_def
      swap_section_def pick_frame_def Let_def ex_state_def ex_old_sink_def new_sink_def
      ex_keys_step_def ex_keys_none_def)

theorem consumer_display_and_swap_witness:
  "0 < length (buffer_sinks ex_state) \<and>
   uploaded_frame (buffer_sinks ex_state ! 0) \<and>
   show_buffersink_window ex_state \<and> begin_visible ex_keys_step \<and>
   fst (snd (render_sink ex_keys_step (AtOuterTest, [ex_poll]) 0 ex_state)) = Some (Picture 7) \<and>
   shown (snd (snd (render_sink ex_keys_step (AtOuterTest, [ex_poll]) 0 ex_state)))
     = Some (Picture 7) \<and>
   b_frame (buffer_sinks (fst (render_sink ex_keys_step (AtOuterTest, [ex_poll]) 0 ex_state)) ! 0)
     = Some (Picture 7) \<and>
   \<not> uploaded_frame
     (buffer_sinks (fst (render_sink ex_keys_step (AtOuterTest, [ex_poll]) 0 ex_state)) ! 0) \<and>
   shown (snd (snd (render_sink ex_keys_none (AtOuterTest, [ex_poll]) 0 ex_state)))
     = Some (Picture 7) \<and>
   a_frame (buffer_sinks (fst (render_sink ex_keys_none (AtOuterTest, [ex_poll]) 0 ex_state)) ! 0)
     = Some (Picture 7) \<and>
   uploaded_frame
     (buffer_sinks (fst (render_sink ex_keys_none (AtOuterTest, [ex_poll]) 0 ex_state)) ! 0)"
proof -
  let ?pr = "(AtOuterTest, [ex_poll])"
  let ?b = "buffer_sinks ex_state ! 0"
  have l: "0 < length (buffer_sinks ex_state)" by (simp add: ex_state_def)
  have b: "uploaded_frame ?b" "sink_ctx ?b \<noteq> None" "a_frame ?b = Some (Picture 7)"
    "show_buffersink_window ex_state"
    by (simp_all add: ex_state_def ex_old_sink_def new_sink_def)
  have v: "begin_visible ex_keys_step" "begin_visible ex_keys_none"
    by (simp_all add: ex_keys_step_def ex_keys_none_def)
  have p: "\<forall>e\<in>set (snd ?pr). \<not> reinit e" "fst ?pr = AtOuterTest \<or> fst ?pr = AtInnerTest"
    by (simp_all add: ex_poll_def)
  have r: "render_sink k ?pr 0 ex_state =
      (fst (render_sink k ?pr 0 ex_state), fst (snd (render_sink k ?pr 0 ex_state)),
       snd (snd (render_sink k ?pr 0 ex_state)))" for k by simp
  note T = consumer_display_and_swap [OF l refl r refl refl]
  have pre: "uploaded_frame ?b \<and> sink_ctx ?b \<noteq> None \<and> (\<forall>e\<in>set (snd ?pr). \<not> reinit e)
            \<and> (fst ?pr = AtOuterTest \<or> fst ?pr = AtInnerTest)"
    using b p by blast
  note step = T [of ex_keys_step, THEN conjunct2, THEN conjunct2, THEN conjunct2, THEN conjunct2,
                 THEN mp, OF pre]
  note none = T [of ex_keys_none, THEN conjunct2, THEN conjunct2, THEN conjunct2, THEN conjunct2,
                 THEN mp, OF pre]
  have fl: "\<not> paused (fst (render_sink ex_keys_step ?pr 0 ex_state))
              \<or> framestep (fst (render_sink ex_keys_step ?pr 0 ex_state))"
    "\<not> (\<not> paused (fst (render_sink ex_keys_none ?pr 0 ex_state))
              \<or> framestep (fst (render_sink ex_keys_none ?pr 0 ex_state)))"
    using ex_render_step by blast+
  have 1: "fst (snd (render_sink ex_keys_step ?pr 0 ex_state)) = Some (Picture 7)
     \<and> shown (snd (snd (render_sink ex_keys_step ?pr 0 ex_state))) = Some (Picture 7)
     \<and> b_frame (buffer_sinks (fst (render_sink ex_keys_step ?pr 0 ex_state)) ! 0)
         = Some (Picture 7)
     \<and> \<not> uploaded_frame (buffer_sinks (fst (render_sink ex_keys_step ?pr 0 ex_state)) ! 0)"
    using step b(3,4) v(1) by (simp only: fl(1) if_True) simp
  have 2: "shown (snd (snd (render_sink ex_keys_none ?pr 0 ex_state))) = Some (Picture 7)
     \<and> a_frame (buffer_sinks (fst (render_sink ex_keys_none ?pr 0 ex_state)) ! 0)
         = Some (Picture 7)
     \<and> uploaded_frame (buffer_sinks (fst (render_sink ex_keys_none ?pr 0 ex_state)) ! 0)"
    using none b(3,4) v(2) by (simp only: fl(2) if_False) simp
  show ?thesis using l b(1,4) v(1) 1 2 by blast
qed

section \<open>Properties of the editor\<close>

subsection \<open>Claim C5: creating a link\<close>

text \<open>
  Claim C5 says that every link-creation event appends the link exactly when the media
  kinds of its two slots are equal. While a producer thread is joinable the editor returns
  before it asks for the event (lines 1139--1144): a link between two video slots is then
  not appended.
\<close>

theorem link_dropped_while_running:
  "link_created (ex_no_events\<lparr>link_created := Some (3, 1)\<rparr>) = Some (3, 1) \<and>
   in_range 3 (edge2type ex_state) \<and> in_range 1 (edge2type ex_state) \<and>
   snd (edge2type ex_state ! nat 3) = snd (edge2type ex_state ! nat 1) \<and>
   editor_tail (ex_no_events\<lparr>link_created := Some (3, 1)\<rparr>) ex_state = Some ex_state \<and>
   filter_links ex_state \<noteq> filter_links ex_state @ [(3, 1)]"
  by (simp add: editor_tail_def any_joinable_def in_range_def ex_state_def ex_no_events_def)

text \<open>
  Claim C5, amended. A link-creation event between two slots of the current table (with no
  link destroyed or deleted in the same frame) appends the link to \<open>filter_links\<close> exactly
  when no producer thread is joinable and the media kinds of the two slots in \<open>edge2type\<close>
  are equal; otherwise the link list is unchanged and no error is surfaced.
\<close>

theorem link_created_handling:
  assumes "link_created ev = Some (a, b)" and "link_destroyed ev = None"
    and "\<not> key_X_released ev"
    and "in_range a (edge2type s)" and "in_range b (edge2type s)"
  shows "\<exists>s'. editor_tail ev s = Some s' \<and>
           filter_links s' =
             (if \<not> any_joinable s \<and> snd (edge2type s ! nat a) = snd (edge2type s ! nat b)
              then filter_links s @ [(a, b)] else filter_links s)"
  using assms by (simp add: editor_tail_def create_link_def sweep_nodes_def)

lemma ex_av_tables:
  "edge2type ex_av = [(0, AVMEDIA_TYPE_UNKNOWN), (1, AVMEDIA_TYPE_VIDEO),
                      (2, AVMEDIA_TYPE_UNKNOWN), (3, AVMEDIA_TYPE_AUDIO)]"
  by (simp add: ex_av_def build_tables_def node_slots_def ex_idle_def ex_state_def
      ex_node_def ex_testsrc_def ex_anullsink_def new_context_def)

theorem link_created_handling_witness:
  "in_range 1 (edge2type ex_av) \<and> in_range 3 (edge2type ex_av) \<and>
   \<not> any_joinable ex_av \<and>
   snd (edge2type ex_av ! nat 1) \<noteq> snd (edge2type ex_av ! nat 3) \<and>
   map_option filter_links (editor_tail (ex_no_events\<lparr>link_created := Some (1, 3)\<rparr>) ex_av)
     = Some [] \<and>
   in_range 3 (edge2type ex_idle) \<and> in_range 1 (edge2type ex_idle) \<and>
   map_option filter_links (editor_tail (ex_no_events\<lparr>link_created := Some (3, 1)\<rparr>) ex_idle)
     = Some [(3, 1), (3, 1)]"
proof -
  let ?e = "ex_no_events\<lparr>link_created := Some (1, 3)\<rparr>"
  let ?f = "ex_no_events\<lparr>link_created := Some (3, 1)\<rparr>"
  have e: "link_created ?e = Some (1, 3)" "link_destroyed ?e = None" "\<not> key_X_released ?e"
    "link_created ?f = Some (3, 1)" "link_destroyed ?f = None" "\<not> key_X_released ?f"
    by (simp_all add: ex_no_events_def)
  have r: "in_range 1 (edge2type ex_av)" "in_range 3 (edge2type ex_av)"
    by (simp_all add: ex_av_tables in_range_def)
  have q: "in_range 3 (edge2type ex_idle)" "in_range 1 (edge2type ex_idle)"
    by (simp_all add: ex_idle_def ex_state_def in_range_def)
  have j: "\<not> any_joinable ex_av" "\<not> any_joinable ex_idle"
    by (simp_all add: any_joinable_def ex_av_def build_tables_def ex_idle_def)
  have k: "snd (edge2type ex_av ! nat 1) \<noteq> snd (edge2type ex_av ! nat 3)"
    by (simp add: ex_av_tables)
  have k': "snd (edge2type ex_idle ! nat 3) = snd (edge2type ex_idle ! nat 1)"
    by (simp add: ex_idle_def ex_state_def)
  have l: "filter_links ex_av = []" "filter_links ex_idle = [(3, 1)]"
    by (simp_all add: ex_av_def build_tables_def ex_idle_def ex_state_def)
  from link_created_handling [OF e(1,2,3) r] k l(1)
  have 1: "map_option filter_links (editor_tail ?e ex_av) = Some []" by auto
  from link_created_handling [OF e(4,5,6) q] j(2) k' l(2)
  have 2: "map_option filter_links (editor_tail ?f ex_idle) = Some [(3, 1), (3, 1)]" by auto
  show ?thesis using r q j(1) k 1 2 by blast
qed

subsection \<open>Claim C6: no removal while a producer thread is joinable\<close>

lemma editor_tail_busy: "any_joinable s \<Longrightarrow> editor_tail ev s = Some s"
  by (simp add: editor_tail_def)

lemma probe_node_keeps:
  "node_ctx (probe_node u nd) = node_ctx nd \<and>
   node_filter (probe_node u nd) = node_filter nd \<and>
   node_id (probe_node u nd) = node_id nd \<and>
   filter_name (probe_node u nd) = filter_name nd \<and>
   filter_label (probe_node u nd) = filter_label nd \<and>
   ctx_options (probe_node u nd) = ctx_options nd \<and>
   filter_options (probe_node u nd) = filter_options nd"
  unfolding probe_node_def by (simp add: Let_def split: option.split)

lemma probe_node_probed:
  "probe nd \<noteq> None \<Longrightarrow> probe_graph nd \<noteq> None \<Longrightarrow> probe_node u nd = nd"
  unfolding probe_node_def by (auto simp: Let_def split: option.split)

lemma probe_node_ignores_remove: "probe_node (u\<lparr>remove_pressed := r\<rparr>) nd = probe_node u nd"
  unfolding probe_node_def by (simp add: Let_def split: option.split)

lemma draw_node_options_busy:
  assumes "any_joinable s"
  shows "draw_node_options u i s = Some (set_node i (probe_node u (filter_nodes s ! i)) s)
       \<or> draw_node_options u i s =
            Some (set_node i ((probe_node u (filter_nodes s ! i))\<lparr>colapsed := False\<rparr>) s)
       \<or> draw_node_options u i s =
            Some (set_node i ((probe_node u (filter_nodes s ! i))\<lparr>colapsed := True\<rparr>) s)"
  using assms unfolding draw_node_options_def by (simp add: Let_def)

lemma draw_node_options_ignores_remove:
  assumes "any_joinable s"
  shows "draw_node_options (u\<lparr>remove_pressed := r\<rparr>) i s = draw_node_options u i s"
  using assms unfolding draw_node_options_def
  by (simp add: Let_def probe_node_ignores_remove)

lemma same_handles_probe_node:
  "same_handles (probe_node u nd) nd"
  "same_handles ((probe_node u nd)\<lparr>colapsed := c\<rparr>) nd"
  using probe_node_keeps [where u=u and nd=nd] probe_node_probed [where u=u and nd=nd]
  by (auto simp: same_handles_def)

lemma same_handles_refl: "same_handles nd nd"
  by (simp add: same_handles_def)

text \<open>
  Claim C6. While any thread of \<open>video_sink_threads\<close> is joinable, a remove request has no
  effect by either path. The editor handles no event at all (so no delete-selection), and
  leaves the state as it is. \<open>draw_node_options\<close> returns before the Remove button: its
  result does not depend on the button, it erases no node, and it leaves the links, the
  engine instance, the sinks and the threads as they are and every node with the same
  handles.
\<close>

theorem removal_rejected_while_running:
  assumes "any_joinable s" and "i < length (filter_nodes s)"
  shows "editor_tail ev s = Some s \<and>
         draw_node_options (u\<lparr>remove_pressed := True\<rparr>) i s
           = draw_node_options (u\<lparr>remove_pressed := False\<rparr>) i s \<and>
         (\<exists>s'. draw_node_options u i s = Some s' \<and>
            length (filter_nodes s') = length (filter_nodes s) \<and>
            (\<forall>j<length (filter_nodes s). same_handles (filter_nodes s' ! j) (filter_nodes s ! j)) \<and>
            filter_links s' = filter_links s \<and>
            filter_graph s' = filter_graph s \<and>
            buffer_sinks s' = buffer_sinks s \<and>
            video_sink_threads s' = video_sink_threads s)"
proof (intro conjI)
  show "editor_tail ev s = Some s" using assms(1) by (rule editor_tail_busy)
  show "draw_node_options (u\<lparr>remove_pressed := True\<rparr>) i s
           = draw_node_options (u\<lparr>remove_pressed := False\<rparr>) i s"
    using draw_node_options_ignores_remove [OF assms(1)] by simp
  let ?nd = "filter_nodes s ! i"
  from draw_node_options_busy [OF assms(1), where u=u and i=i]
  obtain nd' where r: "draw_node_options u i s = Some (set_node i nd' s)"
    and h: "same_handles nd' ?nd"
    using same_handles_probe_node [where u=u and nd="?nd"] by blast
  have "\<forall>j<length (filter_nodes s).
          same_handles (filter_nodes (set_node i nd' s) ! j) (filter_nodes s ! j)"
    using h assms(2) by (auto simp: set_node_def nth_list_update same_handles_refl)
  then show "\<exists>s'. draw_node_options u i s = Some s' \<and>
            length (filter_nodes s') = length (filter_nodes s) \<and>
            (\<forall>j<length (filter_nodes s). same_handles (filter_nodes s' ! j) (filter_nodes s ! j)) \<and>
            filter_links s' = filter_links s \<and>
            filter_graph s' = filter_graph s \<and>
            buffer_sinks s' = buffer_sinks s \<and>
            video_sink_threads s' = video_sink_threads s"
    using r by (simp add: set_node_def)
qed

theorem removal_rejected_while_running_witness:
  "any_joinable ex_state \<and> 0 < length (filter_nodes ex_state) \<and>
   editor_tail (ex_no_events\<lparr>selected_nodes := [0], key_X_released := True\<rparr>) ex_state
     = Some ex_state \<and>
   map_option (length \<circ> filter_nodes)
     (draw_node_options \<lparr>probe_graph_alloc_ok = True, probe_alloc_ok = True,
        options_pressed = True, close_pressed = False, remove_pressed = True\<rparr> 0 ex_state)
     = Some 2 \<and>
   map_option filter_links
     (draw_node_options \<lparr>probe_graph_alloc_ok = True, probe_alloc_ok = True,
        options_pressed = True, close_pressed = False, remove_pressed = True\<rparr> 0 ex_state)
     = Some [(3, 1)]"
proof -
  let ?u = "\<lparr>probe_graph_alloc_ok = True, probe_alloc_ok = True,
        options_pressed = True, close_pressed = False, remove_pressed = True\<rparr>"
  let ?ev = "ex_no_events\<lparr>selected_nodes := [0], key_X_released := True\<rparr>"
  have h: "any_joinable ex_state" "0 < length (filter_nodes ex_state)"
    by (simp_all add: any_joinable_def ex_state_def)
  have v: "length (filter_nodes ex_state) = 2" "filter_links ex_state = [(3, 1)]"
    by (simp_all add: ex_state_def)
  from removal_rejected_while_running [OF h, of ?ev ?u]
  obtain s' where "editor_tail ?ev ex_state = Some ex_state"
    "draw_node_options ?u 0 ex_state = Some s'"
    "length (filter_nodes s') = length (filter_nodes ex_state)"
    "filter_links s' = filter_links ex_state" by blast
  then show ?thesis using h v by simp
qed

subsection \<open>Claim C7: links after the removal of a node\<close>

lemma avfilter_free_frame:
  "filter_nodes (avfilter_free c s) = filter_nodes s \<and>
   filter_links (avfilter_free c s) = filter_links s \<and>
   edge2pad (avfilter_free c s) = edge2pad s"
  by (simp add: avfilter_free_def split: option.split)

lemma delete_nodes_post:
  assumes "delete_nodes ids s = Some s1"
  shows "filter_links s1 = filter_links s \<and> edge2pad s1 = edge2pad s \<and>
         length (filter_nodes s1) = length (filter_nodes s) \<and>
         (\<forall>k<length (filter_nodes s).
            (k \<in> selected_indexes s ids \<longrightarrow> node_filter (filter_nodes s1 ! k) = None) \<and>
            (k \<notin> selected_indexes s ids \<longrightarrow> filter_nodes s1 ! k = filter_nodes s ! k))"
  using assms
proof (induction ids arbitrary: s)
  case Nil
  then show ?case by (simp add: selected_indexes_def)
next
  case (Cons slot ids)
  let ?n = "node (edge2pad s ! nat slot)"
  let ?s' = "set_node ?n (free_node (filter_nodes s ! ?n))
                      (avfilter_free (node_ctx (filter_nodes s ! ?n)) s)"
  from Cons.prems have rng: "in_range slot (edge2pad s)" "?n < length (filter_nodes s)"
    and rest: "delete_nodes ids ?s' = Some s1"
    by (auto simp: Let_def split: if_splits)
  have fr: "filter_links ?s' = filter_links s" "edge2pad ?s' = edge2pad s"
    "filter_nodes ?s' = (filter_nodes s)[?n := free_node (filter_nodes s ! ?n)]"
    by (simp_all add: set_node_def avfilter_free_frame)
  have sel: "selected_indexes ?s' ids = selected_indexes s ids"
    "selected_indexes s (slot # ids) = insert ?n (selected_indexes s ids)"
    by (simp_all add: selected_indexes_def fr(2))
  note ih = Cons.IH [OF rest]
  have len: "length (filter_nodes s1) = length (filter_nodes s)" using ih fr(3) by simp
  have pt: "(k \<in> selected_indexes s (slot # ids) \<longrightarrow> node_filter (filter_nodes s1 ! k) = None) \<and>
            (k \<notin> selected_indexes s (slot # ids) \<longrightarrow> filter_nodes s1 ! k = filter_nodes s ! k)"
    if k: "k < length (filter_nodes s)" for k
  proof -
    have k': "k < length (filter_nodes ?s')" using k fr(3) by simp
    from ih k' have a: "k \<in> selected_indexes s ids \<longrightarrow> node_filter (filter_nodes s1 ! k) = None"
      and b: "k \<notin> selected_indexes s ids \<longrightarrow> filter_nodes s1 ! k = filter_nodes ?s' ! k"
      using sel(1) by simp_all
    show ?thesis
    proof (cases "k \<in> selected_indexes s ids")
      case True
      then show ?thesis using a sel(2) by simp
    next
      case False
      show ?thesis
      proof (cases "k = ?n")
        case True
        then have "filter_nodes s1 ! k = free_node (filter_nodes s ! ?n)"
          using b False fr(3) rng(2) by simp
        then show ?thesis using True sel(2) by (simp add: free_node_def)
      next
        case kn: False
        then have "filter_nodes s1 ! k = filter_nodes s ! k" using b False fr(3) by simp
        then show ?thesis using kn False sel(2) by simp
      qed
    qed
  qed
  show ?case using ih fr len pt by simp
qed

lemma filter_as_indexes:
  "filter P xs = map ((!) xs) (filter (\<lambda>k. P (xs ! k)) [0..<length xs])"
proof -
  have "filter P (map ((!) xs) [0..<length xs])
      = map ((!) xs) (filter (P \<circ> (!) xs) [0..<length xs])"
    by (rule filter_map)
  then show ?thesis by (simp add: map_nth comp_def)
qed

lemma sweep_after_delete:
  assumes "length ys = length xs"
    and "\<forall>k<length xs. (k \<in> R \<longrightarrow> node_filter (ys ! k) = None) \<and> (k \<notin> R \<longrightarrow> ys ! k = xs ! k)"
  shows "filter (\<lambda>nd. node_filter nd \<noteq> None) ys
       = map ((!) xs) (filter (\<lambda>k. k \<notin> R \<and> node_filter (xs ! k) \<noteq> None) [0..<length xs])"
proof -
  have 1: "filter (\<lambda>k. node_filter (ys ! k) \<noteq> None) [0..<length xs]
         = filter (\<lambda>k. k \<notin> R \<and> node_filter (xs ! k) \<noteq> None) [0..<length xs]"
    by (rule filter_cong [OF refl]) (use assms(2) in auto)
  have 2: "map ((!) ys) (filter (\<lambda>k. k \<notin> R \<and> node_filter (xs ! k) \<noteq> None) [0..<length xs])
         = map ((!) xs) (filter (\<lambda>k. k \<notin> R \<and> node_filter (xs ! k) \<noteq> None) [0..<length xs])"
    by (rule map_cong [OF refl]) (use assms(2) in auto)
  show ?thesis
    using filter_as_indexes [of "\<lambda>nd. node_filter nd \<noteq> None" ys] assms(1) 1 2 by simp
qed

lemma remove_node_links: "remove_node i nd s = Some s' \<Longrightarrow> filter_links s' = filter_links s"
  by (auto simp: remove_node_def Let_def set_node_def avfilter_free_frame split: if_splits)

lemma draw_node_options_links:
  "draw_node_options u i s = Some s' \<Longrightarrow> filter_links s' = filter_links s"
  unfolding draw_node_options_def
  by (auto simp: Let_def set_node_def dest: remove_node_links split: if_splits)

lemma ex_delete_sink:
  "map_option filter_links
     (editor_tail (ex_no_events\<lparr>selected_nodes := [0], key_X_released := True\<rparr>) ex_idle)
     = Some [(3, 1)] \<and>
   map_option (map filter_label \<circ> filter_nodes)
     (editor_tail (ex_no_events\<lparr>selected_nodes := [0], key_X_released := True\<rparr>) ex_idle)
     = Some [Some ''testsrc1''] \<and>
   map_option (length \<circ> edge2pad \<circ> build_tables)
     (editor_tail (ex_no_events\<lparr>selected_nodes := [0], key_X_released := True\<rparr>) ex_idle)
     = Some 2"
  by (simp add: editor_tail_def any_joinable_def ex_idle_def ex_state_def ex_no_events_def
      in_range_def set_node_def free_node_def avfilter_free_def sweep_nodes_def
      ex_node_def ex_buffersink_def ex_testsrc_def new_context_def build_tables_def
      node_slots_def)

text \<open>
  Claim C7 says that a removal leaves no link that resolves to the removed node. No removal
  path touches \<open>filter_links\<close>. Deleting the selected sink node (slot 0, node 0) of the
  idle graph erases the node and keeps the link from slot 3 to slot 1; slot 1 is a slot of
  the removed node in the table of the frame, and in the table built from the remaining
  node in the next frame slot 3 does not exist.
\<close>

theorem removal_leaves_dangling_link:
  "\<not> any_joinable ex_idle \<and>
   selected_indexes ex_idle [0] = {0} \<and>
   map_option (map filter_label \<circ> filter_nodes)
     (editor_tail (ex_no_events\<lparr>selected_nodes := [0], key_X_released := True\<rparr>) ex_idle)
     = Some [Some ''testsrc1''] \<and>
   map_option filter_links
     (editor_tail (ex_no_events\<lparr>selected_nodes := [0], key_X_released := True\<rparr>) ex_idle)
     = Some [(3, 1)] \<and>
   link_resolves_to (edge2pad ex_idle) 0 (3, 1) \<and>
   map_option (\<lambda>s'. in_range 3 (edge2pad (build_tables s')))
     (editor_tail (ex_no_events\<lparr>selected_nodes := [0], key_X_released := True\<rparr>) ex_idle)
     = Some False"
proof -
  let ?r = "editor_tail (ex_no_events\<lparr>selected_nodes := [0], key_X_released := True\<rparr>) ex_idle"
  have 1: "\<not> any_joinable ex_idle" by (simp add: any_joinable_def ex_idle_def)
  have 2: "selected_indexes ex_idle [0] = {0}"
    by (simp add: selected_indexes_def ex_idle_def ex_state_def)
  have 3: "link_resolves_to (edge2pad ex_idle) 0 (3, 1)"
    by (simp add: link_resolves_to_def in_range_def ex_idle_def ex_state_def)
  obtain s' where s': "?r = Some s'" "filter_links s' = [(3, 1)]"
    "map filter_label (filter_nodes s') = [Some ''testsrc1'']"
    "length (edge2pad (build_tables s')) = 2"
    using ex_delete_sink by (cases ?r) auto
  have 4: "\<not> in_range 3 (edge2pad (build_tables s'))" using s'(4) by (simp add: in_range_def)
  show ?thesis using 1 2 3 4 s' by simp
qed

text \<open>
  Claim C7, amended. A removal by delete-selection, performed while no producer thread is
  joinable (and with no link event in the same frame), erases every selected node (and any
  node without filter) from \<open>filter_nodes\<close>, keeps the other nodes in their order, and
  leaves the persisted link list exactly as it was: links are not removed with the node.
  The Remove button of a node leaves the link list as it was, too.
\<close>

theorem removal_keeps_links:
  assumes "\<not> any_joinable s"
    and "link_created ev = None" and "link_destroyed ev = None" and "selected_links ev = []"
    and "selected_nodes ev \<noteq> []" and "key_X_released ev"
    and "editor_tail ev s = Some s'"
  shows "filter_links s' = filter_links s \<and>
         filter_nodes s' = map ((!) (filter_nodes s))
           (filter (\<lambda>k. k \<notin> selected_indexes s (selected_nodes ev)
                          \<and> node_filter (filter_nodes s ! k) \<noteq> None)
              [0..<length (filter_nodes s)]) \<and>
         (\<forall>u i s''. draw_node_options u i s = Some s'' \<longrightarrow> filter_links s'' = filter_links s)"
proof -
  from assms obtain s1 where d: "delete_nodes (selected_nodes ev) s = Some s1"
    and s': "s' = sweep_nodes s1"
    by (auto simp: editor_tail_def split: option.splits)
  note p = delete_nodes_post [OF d]
  have "filter_nodes s' = filter (\<lambda>nd. node_filter nd \<noteq> None) (filter_nodes s1)"
    using s' by (simp add: sweep_nodes_def)
  also have "\<dots> = map ((!) (filter_nodes s))
           (filter (\<lambda>k. k \<notin> selected_indexes s (selected_nodes ev)
                          \<and> node_filter (filter_nodes s ! k) \<noteq> None)
              [0..<length (filter_nodes s)])"
    using p by (intro sweep_after_delete) simp_all
  finally show ?thesis using p s' draw_node_options_links by (simp add: sweep_nodes_def)
qed

theorem removal_keeps_links_witness:
  "\<not> any_joinable ex_idle \<and>
   map_option filter_links
     (editor_tail (ex_no_events\<lparr>selected_nodes := [0], key_X_released := True\<rparr>) ex_idle)
     = Some (filter_links ex_idle) \<and>
   map_option filter_nodes
     (editor_tail (ex_no_events\<lparr>selected_nodes := [0], key_X_released := True\<rparr>) ex_idle)
     = Some [filter_nodes ex_idle ! 1]"
proof -
  let ?ev = "ex_no_events\<lparr>selected_nodes := [0], key_X_released := True\<rparr>"
  have h: "\<not> any_joinable ex_idle" "link_created ?ev = None" "link_destroyed ?ev = None"
    "selected_links ?ev = []" "selected_nodes ?ev \<noteq> []" "key_X_released ?ev"
    by (simp_all add: any_joinable_def ex_idle_def ex_no_events_def)
  obtain s' where r: "editor_tail ?ev ex_idle = Some s'"
    using ex_delete_sink by (cases "editor_tail ?ev ex_idle") auto
  have sel: "selected_indexes ex_idle (selected_nodes ?ev) = {0}"
    by (simp add: selected_indexes_def ex_idle_def ex_state_def)
  have n: "length (filter_nodes ex_idle) = 2"
    "node_filter (filter_nodes ex_idle ! 1) \<noteq> None"
    by (simp_all add: ex_idle_def ex_state_def ex_node_def)
  have "filter_links s' = filter_links ex_idle \<and> filter_nodes s' = [filter_nodes ex_idle ! 1]"
    using removal_keeps_links [OF h r] sel n
    by (simp add: upt_conv_Cons)
  then show ?thesis using h(1) r by simp
qed

section \<open>Properties of \<open>show_commands\<close>\<close>

subsection \<open>Claim C8: the command sent by the timeline toggle\<close>

text \<open>After a rebuild that succeeds, the context of every node is the filter of the graph
  at the index of the node: the node loop allocates the filters in the order of the nodes,
  and the filters the engine inserts when it configures the graph come after them.\<close>

lemma setup_node_filled:
  assumes "setup_node eng k s = Continue s'" and "filled k s" and "k < length (filter_nodes s)"
  shows "filled (Suc k) s'"
proof -
  from assms(2) obtain g where g: "filter_graph s = Some g" "length (filters g) = k"
    "\<forall>n<k. node_ctx (filter_nodes s ! n) = Some (filters g ! n)"
    by (auto simp: filled_def aligned_def)
  from assms(1) obtain f where f: "node_filter (filter_nodes s ! k) = Some f"
    by (auto simp: setup_node_def Let_def split: option.splits)
  let ?c = "new_context f (filter_label (filter_nodes s ! k))"
  from assms(1) f g(1) have gr: "filter_graph s' = Some (g\<lparr>filters := filters g @ [?c]\<rparr>)"
    by (auto simp: setup_node_def Let_def split: if_splits)
  from assms(1) f have nk: "node_ctx (filter_nodes s' ! k) = Some ?c"
    using assms(3) by (auto simp: setup_node_def Let_def split: if_splits)
  from assms(1) f have no: "\<forall>n. n \<noteq> k \<longrightarrow> filter_nodes s' ! n = filter_nodes s ! n"
    by (auto simp: setup_node_def Let_def split: if_splits)
  have "\<forall>n<Suc k. node_ctx (filter_nodes s' ! n) = Some ((filters g @ [?c]) ! n)"
  proof (intro allI impI)
    fix n assume "n < Suc k"
    then consider "n = k" | "n < k" by linarith
    then show "node_ctx (filter_nodes s' ! n) = Some ((filters g @ [?c]) ! n)"
    proof cases
      case 1
      then show ?thesis using nk g(2) by (simp add: nth_append)
    next
      case 2
      then show ?thesis using no g(2,3) by (simp add: nth_append)
    qed
  qed
  then show ?thesis using gr g(2) by (simp add: filled_def aligned_def)
qed

lemma setup_nodes_filled:
  assumes "setup_nodes eng js s = Continue s'" and "js = [k..<N]" and "filled k s"
    and "N = length (filter_nodes s)" and "k \<le> N"
  shows "filled N s'"
  using assms
proof (induction js arbitrary: k s)
  case Nil
  from Nil.prems(2) have "[k..<N] = []" by simp
  then have "k = N" using Nil.prems(5) by auto
  with Nil show ?case by simp
next
  case (Cons j js)
  from Cons.prems(2) [symmetric] have j: "j = k" "k < N" "js = [Suc k..<N]"
    by (auto simp: upt_eq_Cons_conv)
  from Cons.prems(1) obtain s1 where s1: "setup_node eng j s = Continue s1"
    and rest: "setup_nodes eng js s1 = Continue s'"
    by (cases "setup_node eng j s") simp_all
  have len: "length (filter_nodes s1) = length (filter_nodes s)"
    using setup_node_frame [where eng=eng and i=j and s=s] s1 by simp
  have "filled (Suc k) s1"
    using setup_node_filled [of eng k s s1] s1 j Cons.prems(3,4) by simp
  then show ?case
    using Cons.IH [OF rest j(3) _ _ ] len Cons.prems(4) j(2) by simp
qed

lemma rebuild_aligns_contexts:
  assumes "need_filters_reinit s" and "filter_nodes s \<noteq> []"
    and "filters_setup eng s = Return 0 s'"
  shows "aligned (length (filter_nodes s')) s'"
proof -
  define s5 where "s5 = s\<lparr>video_sink_threads := [], need_filters_reinit := False,
      buffer_sinks := [], mutexes := [], graphdump_text := None,
      filter_graph := (if graph_alloc_ok eng then Some \<lparr>filters = []\<rparr> else None),
      trace := trace s @ join_from 0 (video_sink_threads s) @ [ClearThreads]
                 @ [ClearSinks, ClearMutexes, FreeDump, GraphFree, GraphAlloc]\<rparr>"
  have fs: "filters_setup eng s =
     (if filter_graph s5 = None then Return (AVERROR ENOMEM) s5
      else case build_graph eng s5 of
             Undefined s6 \<Rightarrow> Crash s6
           | Abort ret s6 \<Rightarrow> spawn_workers eng ret s6
           | Continue s6 \<Rightarrow> spawn_workers eng (graph_config eng) s6)"
    using assms(1,2) by (simp add: filters_setup_def join_all_def Let_def s5_def)
  have ng: "filter_graph s5 \<noteq> None"
    using fs assms(3) by (auto simp: AVERROR_def ENOMEM_def split: if_splits)
  then have f0: "filled 0 s5" by (auto simp: filled_def aligned_def s5_def split: if_splits)
  have n5: "filter_nodes s5 = filter_nodes s" by (simp add: s5_def)
  show ?thesis
  proof (cases "build_graph eng s5")
    case (Undefined s6)
    then show ?thesis using fs ng assms(3) by simp
  next
    case (Abort r s6)
    then have "r < 0" using build_graph_Abort by blast
    then show ?thesis using fs ng assms(3) Abort by (simp add: spawn_workers_def)
  next
    case (Continue s6)
    then obtain s1 s2 where
      n: "setup_nodes eng [0..<length (filter_nodes s5)] s5 = Continue s1" and
      l: "setup_links eng [0..<length (filter_links s1)] s1 = Continue s2" and
      c: "config_graph eng s2 = Continue s6"
      by (auto simp: build_graph_def split: step.splits)
    have a1: "filled (length (filter_nodes s5)) s1"
      using setup_nodes_filled [OF n refl f0] by simp
    have len1: "length (filter_nodes s1) = length (filter_nodes s5)"
      using setup_nodes_frame [where eng=eng and js="[0..<length (filter_nodes s5)]" and s=s5] n
      by (metis length_map step.sel(3))
    have s2: "filter_nodes s2 = filter_nodes s1" "filter_graph s2 = filter_graph s1"
      using setup_links_graph [where eng=eng and js="[0..<length (filter_links s1)]" and s=s1] l
      by simp_all
    from a1 obtain g where g: "filter_graph s1 = Some g"
      "length (filters g) = length (filter_nodes s5)"
      "\<forall>n<length (filter_nodes s5). node_ctx (filter_nodes s1 ! n) = Some (filters g ! n)"
      by (auto simp: filled_def aligned_def)
    have s6: "filter_nodes s6 = filter_nodes s1"
      "filter_graph s6 = Some (g\<lparr>filters := filters g @ auto_inserted eng\<rparr>)"
      using c s2 g(1) by (auto simp: config_graph_def Let_def split: if_splits)
    have al: "aligned (length (filter_nodes s6)) s6"
      using s6 g len1 by (simp add: aligned_def nth_append)
    have "spawn_workers eng (graph_config eng) s6 = Return 0 s'"
      using fs ng assms(3) Continue by simp
    then have "filter_nodes s' = filter_nodes s6" "filter_graph s' = filter_graph s6"
      by (auto simp: spawn_workers_def Let_def split: if_splits)
    then show ?thesis using al by (simp add: aligned_def)
  qed
qed

lemma command_node_other:
  assumes "selected_filter c = Some n" and "m \<noteq> n"
    and "\<not> selectable_pressed u m" and "\<not> item_clicked u m"
  shows "command_node u s m c = c"
  using assms by (simp add: command_node_def Let_def split: option.split)

lemma command_node_selected:
  assumes "selected_filter c = Some n" and "is_opened c"
    and "\<not> selectable_pressed u n" and "\<not> item_clicked u n"
    and "node_ctx (filter_nodes s ! n) = Some ctx" and "ctx_filter ctx = Some f"
    and "pass_filter u n" and "support_timeline f" and "timeline_open u n" and "toggle_pressed u n"
  shows "command_node u s n c = c\<lparr>toggle_filter := Some n\<rparr>"
  using assms by (simp add: command_node_def Let_def)

lemma command_nodes_toggle:
  assumes "selected_filter c = Some n" and "is_opened c"
    and "\<forall>m. \<not> selectable_pressed u m \<and> \<not> item_clicked u m"
    and "node_ctx (filter_nodes s ! n) = Some ctx" and "ctx_filter ctx = Some f"
    and "pass_filter u n" and "support_timeline f" and "timeline_open u n" and "toggle_pressed u n"
  shows "command_nodes u s js c = (if n \<in> set js then c\<lparr>toggle_filter := Some n\<rparr> else c)"
  using assms(1,2)
proof (induction js arbitrary: c)
  case Nil
  then show ?case by simp
next
  case (Cons m js)
  show ?case
  proof (cases "m = n")
    case True
    have st: "command_node u s n c = c\<lparr>toggle_filter := Some n\<rparr>"
      using command_node_selected [OF Cons.prems] assms(3-9) by blast
    have "command_nodes u s js (c\<lparr>toggle_filter := Some n\<rparr>)
        = (if n \<in> set js then c\<lparr>toggle_filter := Some n, toggle_filter := Some n\<rparr>
           else c\<lparr>toggle_filter := Some n\<rparr>)"
      using Cons.IH [of "c\<lparr>toggle_filter := Some n\<rparr>"] Cons.prems by simp
    then show ?thesis using True st by simp
  next
    case False
    have "command_node u s m c = c"
      using command_node_other [OF Cons.prems(1) False] assms(3) by blast
    then show ?thesis using Cons.IH [OF Cons.prems] False by simp
  qed
qed

text \<open>
  Claim C8 says that the argument of the command is the complement of the desired enabled
  state. The button of an enabled filter is labelled \<open>Disable\<close>: the user asks for the
  state disabled, and the command sent is \<open>enable\<close> with the argument \<open>0\<close>, which is the
  state asked for, not its complement \<open>1\<close>.
\<close>

theorem toggle_sends_no_complement:
  "toggle_label (new_context ex_hue (Some ''hue1'')) = ''Disable'' \<and>
   \<not> desired_enabled (new_context ex_hue (Some ''hue1'')) \<and>
   show_commands ex_cmd_ui ex_live ex_cmd_state =
     Some (ex_cmd_state,
           [\<lparr>cmd_target = Some ''hue1'', cmd_name = ''enable'', cmd_arg = ''0''\<rparr>]) \<and>
   ''0'' \<noteq> bool_arg (\<not> desired_enabled (new_context ex_hue (Some ''hue1'')))"
  by (simp add: show_commands_def send_toggle_def command_node_def Let_def ex_live_def
      ex_idle_def ex_state_def ex_cmd_ui_def ex_cmd_state_def ex_live_node_def ex_node_def
      ex_hue_def ex_testsrc_def ex_buffersink_def new_context_def toggle_label_def
      desired_enabled_def bool_arg_def upt_conv_Cons)

text \<open>
  Claim C8, amended. For a timeline-capable committed node that is selected and opened in
  the command window, the contexts of the nodes being the filters of the graph in the order
  of the nodes (as after a rebuild), pressing the toggle sends exactly one command: it is
  named \<open>enable\<close>,
  addressed to the name of that context, and its argument is \<open>1\<close> or \<open>0\<close> equal to the
  desired enabled state, that is the complement of the current enabled state (toggling an
  enabled node sends \<open>0\<close>, toggling a disabled node sends \<open>1\<close>).
\<close>

theorem toggle_sends_desired_state:
  assumes "aligned (length (filter_nodes s)) s"
    and "length (buffer_sinks s) = length (mutexes s)" and "buffer_sinks s \<noteq> []"
    and "window_begin u" and "listbox_begin u"
    and "\<forall>m. \<not> selectable_pressed u m \<and> \<not> item_clicked u m"
    and "selected_filter c = Some n" and "is_opened c" and "toggle_filter c = None"
    and "n < length (filter_nodes s)"
    and "node_ctx (filter_nodes s ! n) = Some ctx" and "ctx_filter ctx = Some f"
    and "support_timeline f"
    and "pass_filter u n" and "timeline_open u n" and "toggle_pressed u n"
  shows "show_commands u s c =
           Some (c, [\<lparr>cmd_target = ctx_name ctx, cmd_name = ''enable'',
                      cmd_arg = bool_arg (desired_enabled ctx)\<rparr>])
         \<and> bool_arg (desired_enabled ctx) = bool_arg (is_disabled ctx)"
proof -
  from assms(1,10,11) obtain g where g: "filter_graph s = Some g" "n < length (filters g)"
    "filters g ! n = ctx"
    by (fastforce simp: aligned_def)
  have "command_nodes u s [0..<length (filter_nodes s)] c = c\<lparr>toggle_filter := Some n\<rparr>"
    using command_nodes_toggle [OF assms(7,8,6,11,12,14,13,15,16)] assms(10) by simp
  then have "show_commands u s c = send_toggle s (c\<lparr>toggle_filter := Some n\<rparr>)"
    using g(1) assms(2-5) by (simp add: show_commands_def)
  moreover have "c\<lparr>toggle_filter := None\<rparr> = c" using assms(9) by simp
  ultimately show ?thesis
    using g
    by (simp add: send_toggle_def Let_def bool_arg_def desired_enabled_def toggle_label_def)
qed

theorem toggle_sends_desired_state_witness:
  "show_commands ex_cmd_ui ex_live ex_cmd_state =
     Some (ex_cmd_state,
           [\<lparr>cmd_target = Some ''hue1'', cmd_name = ''enable'', cmd_arg = ''0''\<rparr>])"
proof -
  let ?g = "\<lparr>filters = [new_context ex_testsrc (Some ''testsrc0''),
                         new_context ex_hue (Some ''hue1''),
                         new_context ex_buffersink (Some ''buffersink2'')]\<rparr>"
  let ?ctx = "new_context ex_hue (Some ''hue1'')"
  have g: "aligned (length (filter_nodes ex_live)) ex_live"
    by (simp add: aligned_def ex_live_def ex_live_node_def less_Suc_eq numeral_3_eq_3)
  have b: "length (buffer_sinks ex_live) = length (mutexes ex_live)" "buffer_sinks ex_live \<noteq> []"
    by (simp_all add: ex_live_def ex_idle_def ex_state_def)
  have u: "window_begin ex_cmd_ui" "listbox_begin ex_cmd_ui"
    "\<forall>m. \<not> selectable_pressed ex_cmd_ui m \<and> \<not> item_clicked ex_cmd_ui m"
    "pass_filter ex_cmd_ui 1" "timeline_open ex_cmd_ui 1" "toggle_pressed ex_cmd_ui 1"
    by (simp_all add: ex_cmd_ui_def)
  have c: "selected_filter ex_cmd_state = Some 1" "is_opened ex_cmd_state"
    "toggle_filter ex_cmd_state = None"
    by (simp_all add: ex_cmd_state_def)
  have n: "1 < length (filter_nodes ex_live)"
    "node_ctx (filter_nodes ex_live ! 1) = Some ?ctx"
    by (simp_all add: ex_live_def ex_live_node_def)
  have f: "ctx_filter ?ctx = Some ex_hue" "support_timeline ex_hue"
    by (simp_all add: new_context_def ex_hue_def)
  have v: "ctx_name ?ctx = Some ''hue1''" "bool_arg (desired_enabled ?ctx) = ''0''"
    by (simp_all add: new_context_def bool_arg_def desired_enabled_def toggle_label_def)
  from toggle_sends_desired_state
         [OF g b u(1,2,3) c n f u(4,5,6)]
  show ?thesis using v by simp
qed

section \<open>Properties of the option editor\<close>

subsection \<open>The kinds whose edit is written\<close>

text \<open>Widening an \<open>int\<close> to \<open>int64_t\<close> and narrowing it back gives the same \<open>int\<close>.\<close>

lemma int_conv: "(ucast (scast (v :: 32 word) :: 64 word) :: 32 word) = v"
  by (rule bit_word_eqI) (simp add: bit_simps)

text \<open>
  For an option of kind integer (\<open>int\<close> or signed 64-bit), boolean (or flags), float (or
  double), string and rational: when the widget of the option reports the value \<open>v\<close> and the
  engine accepts the write (\<open>v\<close> is in range; for a string, shorter than the 1024 bytes of
  the edit buffer), the editor writes \<open>v\<close>, and every later draw of the option shows \<open>v\<close>,
  whatever the user does in that draw. The engine is taken to return for an option the
  value it has accepted for it, and the conversion from \<open>float\<close> to \<open>double\<close> and back to be
  exact.
\<close>

lemma option_round_trip:
  fixes api :: "('o, 'd, 'f) avopt" and opt :: AVOption
  assumes "n = opt_name opt"
  shows "(opt_type opt \<in> {AV_OPT_TYPE_INT, AV_OPT_TYPE_BOOL, AV_OPT_TYPE_FLAGS} \<and>
          fst (av_opt_get_int api obj n) = 0 \<and> keeps_int api obj n \<and>
          av_opt_set_int api obj n (scast v) = (0, obj') \<longrightarrow>
          (\<exists>old. draw_option api opt (Some (VInt v)) obj = Drawn obj' old) \<and>
          (\<forall>w. \<exists>obj''. draw_option api opt w obj' = Drawn obj'' (Some (VInt v))))
       \<and> (opt_type opt = AV_OPT_TYPE_INT64 \<and>
          fst (av_opt_get_int api obj n) = 0 \<and> keeps_int api obj n \<and>
          av_opt_set_int api obj n v64 = (0, obj') \<longrightarrow>
          (\<exists>old. draw_option api opt (Some (VInt64 v64)) obj = Drawn obj' old) \<and>
          (\<forall>w. \<exists>obj''. draw_option api opt w obj' = Drawn obj'' (Some (VInt64 v64))))
       \<and> (opt_type opt = AV_OPT_TYPE_FLOAT \<and> to_float api (to_double api f) = f \<and>
          fst (av_opt_get_double api obj n) = 0 \<and> keeps_double api obj n \<and>
          av_opt_set_double api obj n (to_double api f) = (0, obj') \<longrightarrow>
          (\<exists>old. draw_option api opt (Some (VFloat f)) obj = Drawn obj' old) \<and>
          (\<forall>w. \<exists>obj''. draw_option api opt w obj' = Drawn obj'' (Some (VFloat f))))
       \<and> (opt_type opt = AV_OPT_TYPE_DOUBLE \<and>
          fst (av_opt_get_double api obj n) = 0 \<and> keeps_double api obj n \<and>
          av_opt_set_double api obj n d = (0, obj') \<longrightarrow>
          (\<exists>old. draw_option api opt (Some (VDouble d)) obj = Drawn obj' old) \<and>
          (\<forall>w. \<exists>obj''. draw_option api opt w obj' = Drawn obj'' (Some (VDouble d))))
       \<and> (opt_type opt = AV_OPT_TYPE_STRING \<and> length str < 1024 \<and>
          av_opt_get api obj n = (0, Some cur) \<and> length cur < 1024 \<and> keeps_string api obj n \<and>
          av_opt_set api obj n str = (0, obj') \<longrightarrow>
          (\<exists>old. draw_option api opt (Some (VString str)) obj = Drawn obj' old) \<and>
          (\<forall>w. \<exists>obj''. draw_option api opt w obj' = Drawn obj'' (Some (VString str))))
       \<and> (opt_type opt = AV_OPT_TYPE_RATIONAL \<and> keeps_q api obj n \<and>
          av_opt_set_q api obj n (a, b) = (0, obj') \<longrightarrow>
          (\<exists>old. draw_option api opt (Some (VInt2 a b)) obj = Drawn obj' old) \<and>
          (\<forall>w. \<exists>obj''. draw_option api opt w obj' = Drawn obj'' (Some (VInt2 a b))))"
proof (intro conjI impI; (elim conjE)?)
  assume t: "opt_type opt \<in> {AV_OPT_TYPE_INT, AV_OPT_TYPE_BOOL, AV_OPT_TYPE_FLAGS}"
    and g: "fst (av_opt_get_int api obj n) = 0" and k: "keeps_int api obj n"
    and s: "av_opt_set_int api obj n (scast v) = (0, obj')"
  have d: "draw_option api opt w x = draw_int api n w x" for w x
    using t assms by (auto simp: draw_option_def)
  have r: "av_opt_get_int api obj' n = (0, scast v)" using k s by (simp add: keeps_int_def)
  show "\<exists>old. draw_option api opt (Some (VInt v)) obj = Drawn obj' old"
    using g s by (simp add: d draw_int_def)
  show "\<forall>w. \<exists>obj''. draw_option api opt w obj' = Drawn obj'' (Some (VInt v))"
    using r by (auto simp: d draw_int_def int_conv split: option.split wvalue.split)
next
  assume t: "opt_type opt = AV_OPT_TYPE_INT64"
    and g: "fst (av_opt_get_int api obj n) = 0" and k: "keeps_int api obj n"
    and s: "av_opt_set_int api obj n v64 = (0, obj')"
  have d: "draw_option api opt w x = draw_int64 api n w x" for w x
    using t assms by (simp add: draw_option_def)
  have r: "av_opt_get_int api obj' n = (0, v64)" using k s by (simp add: keeps_int_def)
  show "\<exists>old. draw_option api opt (Some (VInt64 v64)) obj = Drawn obj' old"
    using g s by (simp add: d draw_int64_def)
  show "\<forall>w. \<exists>obj''. draw_option api opt w obj' = Drawn obj'' (Some (VInt64 v64))"
    using r by (auto simp: d draw_int64_def split: option.split wvalue.split)
next
  assume t: "opt_type opt = AV_OPT_TYPE_FLOAT" and c: "to_float api (to_double api f) = f"
    and g: "fst (av_opt_get_double api obj n) = 0" and k: "keeps_double api obj n"
    and s: "av_opt_set_double api obj n (to_double api f) = (0, obj')"
  have d: "draw_option api opt w x = draw_float api n w x" for w x
    using t assms by (simp add: draw_option_def)
  have r: "av_opt_get_double api obj' n = (0, to_double api f)"
    using k s by (simp add: keeps_double_def)
  show "\<exists>old. draw_option api opt (Some (VFloat f)) obj = Drawn obj' old"
    using g s by (simp add: d draw_float_def)
  show "\<forall>w. \<exists>obj''. draw_option api opt w obj' = Drawn obj'' (Some (VFloat f))"
    using r c by (auto simp: d draw_float_def split: option.split wvalue.split)
next
  assume t: "opt_type opt = AV_OPT_TYPE_DOUBLE"
    and g: "fst (av_opt_get_double api obj n) = 0" and k: "keeps_double api obj n"
    and s: "av_opt_set_double api obj n d = (0, obj')"
  have d: "draw_option api opt w x = draw_double api n w x" for w x
    using t assms by (simp add: draw_option_def)
  have r: "av_opt_get_double api obj' n = (0, d)"
    using k s by (simp add: keeps_double_def)
  show "\<exists>old. draw_option api opt (Some (VDouble d)) obj = Drawn obj' old"
    using g s by (simp add: d draw_double_def)
  show "\<forall>w. \<exists>obj''. draw_option api opt w obj' = Drawn obj'' (Some (VDouble d))"
    using r by (auto simp: d draw_double_def split: option.split wvalue.split)
next
  assume t: "opt_type opt = AV_OPT_TYPE_STRING" and l: "length str < 1024"
    and g: "av_opt_get api obj n = (0, Some cur)" and lc: "length cur < 1024"
    and k: "keeps_string api obj n"
    and s: "av_opt_set api obj n str = (0, obj')"
  have d: "draw_option api opt w x = draw_string api n w x" for w x
    using t assms by (simp add: draw_option_def)
  have r: "av_opt_get api obj' n = (0, Some str)"
    using k s by (simp add: keeps_string_def)
  have tk: "take 1023 str = str" using l by simp
  show "\<exists>old. draw_option api opt (Some (VString str)) obj = Drawn obj' old"
    using g lc s tk by (simp add: d draw_string_def)
  show "\<forall>w. \<exists>obj''. draw_option api opt w obj' = Drawn obj'' (Some (VString str))"
    using r l by (auto simp: d draw_string_def split: option.split wvalue.split)
next
  assume t: "opt_type opt = AV_OPT_TYPE_RATIONAL" and k: "keeps_q api obj n"
    and s: "av_opt_set_q api obj n (a, b) = (0, obj')"
  have d: "draw_option api opt w x = draw_rational api n w x" for w x
    using t assms by (simp add: draw_option_def)
  have r: "av_opt_get_q api obj' n = (0, (a, b))"
    using k s by (simp add: keeps_q_def)
  show "\<exists>old. draw_option api opt (Some (VInt2 a b)) obj = Drawn obj' old"
    using s by (simp add: d draw_rational_def Let_def)
  show "\<forall>w. \<exists>obj''. draw_option api opt w obj' = Drawn obj'' (Some (VInt2 a b))"
    using r by (auto simp: d draw_rational_def Let_def split: option.split wvalue.split)
qed

lemma ex_api_keeps:
  "keeps_int ex_api obj n" "keeps_double ex_api obj n" "keeps_string ex_api obj n"
  "keeps_q ex_api obj n"
  by (auto simp: keeps_int_def keeps_double_def keeps_string_def keeps_q_def ex_api_def
      split: option.splits)

lemma ex_round_trips:
  "draw_option ex_api (ex_opt ''h'' AV_OPT_TYPE_INT) None (ex_priv\<lparr>ints := (''h'', 5) # ints ex_priv\<rparr>)
     = Drawn (ex_priv\<lparr>ints := (''h'', 5) # ints ex_priv\<rparr>) (Some (VInt 5)) \<and>
   draw_option ex_api (ex_opt ''eval'' AV_OPT_TYPE_BOOL) None
       (ex_priv\<lparr>ints := (''eval'', 1) # ints ex_priv\<rparr>)
     = Drawn (ex_priv\<lparr>ints := (''eval'', 1) # ints ex_priv\<rparr>) (Some (VInt 1)) \<and>
   draw_option ex_api (ex_opt ''s'' AV_OPT_TYPE_FLOAT) None (ex_priv\<lparr>dbls := (''s'', 3) # dbls ex_priv\<rparr>)
     = Drawn (ex_priv\<lparr>dbls := (''s'', 3) # dbls ex_priv\<rparr>) (Some (VFloat 3)) \<and>
   draw_option ex_api (ex_opt ''expr'' AV_OPT_TYPE_STRING) None
       (ex_priv\<lparr>strs := (''expr'', ''2*n'') # strs ex_priv\<rparr>)
     = Drawn (ex_priv\<lparr>strs := (''expr'', ''2*n'') # strs ex_priv\<rparr>) (Some (VString ''2*n'')) \<and>
   draw_option ex_api (ex_opt ''rate'' AV_OPT_TYPE_RATIONAL) None
       (ex_priv\<lparr>rats := (''rate'', (30, 1)) # rats ex_priv\<rparr>)
     = Drawn (ex_priv\<lparr>rats := (''rate'', (30, 1)) # rats ex_priv\<rparr>) (Some (VInt2 30 1))"
proof -
  let ?oi = "ex_priv\<lparr>ints := (''h'', 5) # ints ex_priv\<rparr>"
  let ?ob = "ex_priv\<lparr>ints := (''eval'', 1) # ints ex_priv\<rparr>"
  let ?of = "ex_priv\<lparr>dbls := (''s'', 3) # dbls ex_priv\<rparr>"
  let ?os = "ex_priv\<lparr>strs := (''expr'', ''2*n'') # strs ex_priv\<rparr>"
  let ?oq = "ex_priv\<lparr>rats := (''rate'', (30, 1)) # rats ex_priv\<rparr>"
  have same: "draw_option ex_api opt None obj = Drawn obj'' v \<Longrightarrow> obj'' = obj"
    for opt obj obj'' and v :: "(int, int) wvalue option"
    by (auto simp: draw_option_def draw_int_def draw_int64_def draw_uint64_def draw_double_def
        draw_float_def draw_string_def draw_rational_def Let_def
        split: AVOptionType.splits if_splits)
  have i: "ex_opt ''h'' AV_OPT_TYPE_INT
             \<in> {x. opt_type x \<in> {AV_OPT_TYPE_INT, AV_OPT_TYPE_BOOL, AV_OPT_TYPE_FLAGS}}"
    "fst (av_opt_get_int ex_api ex_priv ''h'') = 0"
    "av_opt_set_int ex_api ex_priv ''h'' (scast (5 :: 32 word)) = (0, ?oi)"
    by (simp_all add: ex_opt_def ex_api_def ex_priv_def)
  have "\<forall>w. \<exists>obj''. draw_option ex_api (ex_opt ''h'' AV_OPT_TYPE_INT) w ?oi
           = Drawn obj'' (Some (VInt 5))"
    using option_round_trip [where api=ex_api and opt="ex_opt ''h'' AV_OPT_TYPE_INT"
        and n="''h''" and obj=ex_priv and v=5 and obj'="?oi"] i ex_api_keeps(1)
    by (simp add: ex_opt_def)
  then have 1: "draw_option ex_api (ex_opt ''h'' AV_OPT_TYPE_INT) None ?oi
           = Drawn ?oi (Some (VInt 5))" using same by metis
  have b: "fst (av_opt_get_int ex_api ex_priv ''eval'') = 0"
    "av_opt_set_int ex_api ex_priv ''eval'' (scast (1 :: 32 word)) = (0, ?ob)"
    by (simp_all add: ex_api_def ex_priv_def)
  have "\<forall>w. \<exists>obj''. draw_option ex_api (ex_opt ''eval'' AV_OPT_TYPE_BOOL) w ?ob
           = Drawn obj'' (Some (VInt 1))"
    using option_round_trip [where api=ex_api and opt="ex_opt ''eval'' AV_OPT_TYPE_BOOL"
        and n="''eval''" and obj=ex_priv and v=1 and obj'="?ob"] b ex_api_keeps(1)
    by (simp add: ex_opt_def)
  then have 2: "draw_option ex_api (ex_opt ''eval'' AV_OPT_TYPE_BOOL) None ?ob
           = Drawn ?ob (Some (VInt 1))" using same by metis
  have f: "to_float ex_api (to_double ex_api 3) = 3"
    "fst (av_opt_get_double ex_api ex_priv ''s'') = 0"
    "av_opt_set_double ex_api ex_priv ''s'' (to_double ex_api 3) = (0, ?of)"
    by (simp_all add: ex_api_def ex_priv_def)
  have "\<forall>w. \<exists>obj''. draw_option ex_api (ex_opt ''s'' AV_OPT_TYPE_FLOAT) w ?of
           = Drawn obj'' (Some (VFloat 3))"
    using option_round_trip [where api=ex_api and opt="ex_opt ''s'' AV_OPT_TYPE_FLOAT"
        and n="''s''" and obj=ex_priv and f=3 and obj'="?of"] f ex_api_keeps(2)
    by (simp add: ex_opt_def)
  then have 3: "draw_option ex_api (ex_opt ''s'' AV_OPT_TYPE_FLOAT) None ?of
           = Drawn ?of (Some (VFloat 3))" using same by metis
  have s: "length ''2*n'' < 1024" "av_opt_get ex_api ex_priv ''expr'' = (0, Some ''n'')"
    "length ''n'' < 1024" "av_opt_set ex_api ex_priv ''expr'' ''2*n'' = (0, ?os)"
    by (simp_all add: ex_api_def ex_priv_def)
  have "\<forall>w. \<exists>obj''. draw_option ex_api (ex_opt ''expr'' AV_OPT_TYPE_STRING) w ?os
           = Drawn obj'' (Some (VString ''2*n''))"
    using option_round_trip [where api=ex_api and opt="ex_opt ''expr'' AV_OPT_TYPE_STRING"
        and n="''expr''" and obj=ex_priv and str="''2*n''" and cur="''n''" and obj'="?os"]
      s ex_api_keeps(3)
    by (simp add: ex_opt_def)
  then have 4: "draw_option ex_api (ex_opt ''expr'' AV_OPT_TYPE_STRING) None ?os
           = Drawn ?os (Some (VString ''2*n''))" using same by metis
  have q: "av_opt_set_q ex_api ex_priv ''rate'' (30, 1) = (0, ?oq)"
    by (simp add: ex_api_def ex_priv_def)
  have "\<forall>w. \<exists>obj''. draw_option ex_api (ex_opt ''rate'' AV_OPT_TYPE_RATIONAL) w ?oq
           = Drawn obj'' (Some (VInt2 30 1))"
    using option_round_trip [where api=ex_api and opt="ex_opt ''rate'' AV_OPT_TYPE_RATIONAL"
        and n="''rate''" and obj=ex_priv and a=30 and b=1 and obj'="?oq"] q ex_api_keeps(4)
    by (simp add: ex_opt_def)
  then have 5: "draw_option ex_api (ex_opt ''rate'' AV_OPT_TYPE_RATIONAL) None ?oq
           = Drawn ?oq (Some (VInt2 30 1))" using same by metis
  show ?thesis using 1 2 3 4 5 by blast
qed

subsection \<open>Claim C9: an edited value is the value read back\<close>

text \<open>The case of the unsigned 64-bit kind (lines 713--727): the widget edits \<open>value\<close>, and
  the assignment \<open>value = uvalue\<close> of line 723 then puts back the value that was read before
  the edit. The value written is the old one, whatever the widget reports.\<close>

lemma uint64_edit_discarded:
  assumes "opt_type opt = AV_OPT_TYPE_UINT64" and "n = opt_name opt"
    and "av_opt_get_int api obj n = (0, old)"
  shows "draw_option api opt (Some (VInt64 v)) obj
           = Drawn (snd (av_opt_set_int api obj n old)) (Some (VInt64 old))"
  using assms by (simp add: draw_option_def draw_uint64_def)

text \<open>
  Claim C9 says that an option set to \<open>v\<close> through the editor reads back as \<open>v\<close>, for every
  supported kind of value. It does for the kinds of the lemma \<open>option_round_trip\<close>. For an
  unsigned 64-bit integer option it does not. On a store that accepts every write, the
  option \<open>h\<close> holds 0 and the user drags its widget to 5: as an unsigned 64-bit option the
  editor writes 0 and the next draw shows 0, while as a signed 64-bit option, the sibling
  case of lines 701--712, it writes 5 and the next draw shows 5.
\<close>

theorem uint64_edit_lost:
  "av_opt_get_int ex_api ex_priv ''h'' = (0, 0) \<and>
   av_opt_set_int ex_api ex_priv ''h'' 5 = (0, ex_priv\<lparr>ints := (''h'', 5) # ints ex_priv\<rparr>) \<and>
   draw_option ex_api (ex_opt ''h'' AV_OPT_TYPE_UINT64) (Some (VInt64 5)) ex_priv
     = Drawn (ex_priv\<lparr>ints := (''h'', 0) # ints ex_priv\<rparr>) (Some (VInt64 0)) \<and>
   draw_option ex_api (ex_opt ''h'' AV_OPT_TYPE_UINT64) None
       (ex_priv\<lparr>ints := (''h'', 0) # ints ex_priv\<rparr>)
     = Drawn (ex_priv\<lparr>ints := (''h'', 0) # ints ex_priv\<rparr>) (Some (VInt64 0)) \<and>
   draw_option ex_api (ex_opt ''h'' AV_OPT_TYPE_INT64) (Some (VInt64 5)) ex_priv
     = Drawn (ex_priv\<lparr>ints := (''h'', 5) # ints ex_priv\<rparr>) (Some (VInt64 0)) \<and>
   draw_option ex_api (ex_opt ''h'' AV_OPT_TYPE_INT64) None
       (ex_priv\<lparr>ints := (''h'', 5) # ints ex_priv\<rparr>)
     = Drawn (ex_priv\<lparr>ints := (''h'', 5) # ints ex_priv\<rparr>) (Some (VInt64 5))"
  by (simp add: draw_option_def draw_uint64_def draw_int64_def ex_api_def ex_priv_def
      ex_opt_def)

end
